theory Spec2Isabelle
  imports Main
begin

section \<open>Strings and the three patterns of normalizeMessage\<close>

text \<open>
  A JavaScript string is modelled as a list of 8-bit characters, the code units up to
  0xFF (Latin-1). \<open>\d\<close>, \<open>\w\<close> and \<open>\b\<close> are ASCII classes in a regular expression without
  the \<open>u\<close> flag; \<open>\s\<close> and \<open>trim\<close> take the white space of the 8-bit range.
  \<open>toLowerCase\<close> maps \<open>A\<close> to \<open>Z\<close> and the capital letters of Latin-1 (0xC0 to 0xDE
  without the multiplication sign 0xD7) to the letter 0x20 above them.
\<close>

definition is_digit :: "char \<Rightarrow> bool" where
  "is_digit c = (c \<in> set ''0123456789'')"

definition is_upper :: "char \<Rightarrow> bool" where
  "is_upper c = (c \<in> set ''ABCDEFGHIJKLMNOPQRSTUVWXYZ'')"

definition is_lower :: "char \<Rightarrow> bool" where
  "is_lower c = (c \<in> set ''abcdefghijklmnopqrstuvwxyz'')"

definition is_word :: "char \<Rightarrow> bool" where
  "is_word c = (is_digit c \<or> is_upper c \<or> is_lower c \<or> c = CHR ''_'')"

definition is_hex :: "char \<Rightarrow> bool" where
  "is_hex c = (is_digit c \<or> c \<in> set ''abcdefABCDEF'')"

definition is_space :: "char \<Rightarrow> bool" where
  "is_space c =
     (c \<in> set [CHR 0x09, CHR 0x0A, CHR 0x0B, CHR 0x0C, CHR 0x0D, CHR 0x20, CHR 0xA0])"

definition latin1_capitals :: string where
  "latin1_capitals = [
      CHR 0xC0, CHR 0xC1, CHR 0xC2, CHR 0xC3, CHR 0xC4, CHR 0xC5, CHR 0xC6, CHR 0xC7,
      CHR 0xC8, CHR 0xC9, CHR 0xCA, CHR 0xCB, CHR 0xCC, CHR 0xCD, CHR 0xCE, CHR 0xCF,
      CHR 0xD0, CHR 0xD1, CHR 0xD2, CHR 0xD3, CHR 0xD4, CHR 0xD5, CHR 0xD6, CHR 0xD8,
      CHR 0xD9, CHR 0xDA, CHR 0xDB, CHR 0xDC, CHR 0xDD, CHR 0xDE]"

definition latin1_smalls :: string where
  "latin1_smalls = [
      CHR 0xE0, CHR 0xE1, CHR 0xE2, CHR 0xE3, CHR 0xE4, CHR 0xE5, CHR 0xE6, CHR 0xE7,
      CHR 0xE8, CHR 0xE9, CHR 0xEA, CHR 0xEB, CHR 0xEC, CHR 0xED, CHR 0xEE, CHR 0xEF,
      CHR 0xF0, CHR 0xF1, CHR 0xF2, CHR 0xF3, CHR 0xF4, CHR 0xF5, CHR 0xF6, CHR 0xF8,
      CHR 0xF9, CHR 0xFA, CHR 0xFB, CHR 0xFC, CHR 0xFD, CHR 0xFE]"

definition lower_char :: "char \<Rightarrow> char" where
  "lower_char c =
     (if is_upper c \<or> c \<in> set latin1_capitals then char_of (of_char c + (32::nat)) else c)"

definition toLowerCase :: "string \<Rightarrow> string" where
  "toLowerCase s = map lower_char s"

definition trim :: "string \<Rightarrow> string" where
  "trim s = rev (dropWhile is_space (rev (dropWhile is_space s)))"

text \<open>\<open>s.includes(k)\<close>: \<open>k\<close> occurs in \<open>s\<close> as a contiguous substring.\<close>

fun starts_with :: "string \<Rightarrow> string \<Rightarrow> bool" where
  "starts_with [] s = True"
| "starts_with (k # ks) [] = False"
| "starts_with (k # ks) (c # cs) = (k = c \<and> starts_with ks cs)"

fun str_includes :: "string \<Rightarrow> string \<Rightarrow> bool" where
  "str_includes [] k = (k = [])"
| "str_includes (c # cs) k = (starts_with k (c # cs) \<or> str_includes cs k)"

text \<open>
  The fixed-length parts of the three regular expressions are sequences of character
  classes: a digit \<open>\d\<close>, a hexadecimal digit \<open>[a-f0-9]\<close> under the \<open>i\<close> flag, the
  separator \<open>[T\s]\<close>, or one literal character.
\<close>

datatype cls = D | H | TS | Lit char

fun cls_ok :: "cls \<Rightarrow> char \<Rightarrow> bool" where
  "cls_ok D c = is_digit c"
| "cls_ok H c = is_hex c"
| "cls_ok TS c = (c = CHR ''T'' \<or> is_space c)"
| "cls_ok (Lit l) c = (c = l)"

text \<open>\<open>fits ks s\<close>: the string \<open>s\<close> begins with characters of the classes \<open>ks\<close>.\<close>

fun fits :: "cls list \<Rightarrow> string \<Rightarrow> bool" where
  "fits [] s = True"
| "fits (k # ks) [] = False"
| "fits (k # ks) (c # cs) = (cls_ok k c \<and> fits ks cs)"

text \<open>\<open>occurs ks s\<close>: the classes \<open>ks\<close> fit at some position of \<open>s\<close>.\<close>

fun occurs :: "cls list \<Rightarrow> string \<Rightarrow> bool" where
  "occurs ks [] = fits ks []"
| "occurs ks (c # cs) = (fits ks (c # cs) \<or> occurs ks cs)"

text \<open>\<open>\d{4}-\d{2}-\d{2}[T\s]\d{2}:\d{2}:\d{2}\<close>, the mandatory part of the time stamp.\<close>

definition ts_core :: "cls list" where
  "ts_core = [D, D, D, D, Lit CHR ''-'', D, D, Lit CHR ''-'', D, D, TS,
              D, D, Lit CHR '':'', D, D, Lit CHR '':'', D, D]"

text \<open>\<open>[a-f0-9]{8}-[a-f0-9]{4}-[a-f0-9]{4}-[a-f0-9]{4}-[a-f0-9]{12}\<close> with flag \<open>i\<close>.\<close>

definition uuid_shape :: "cls list" where
  "uuid_shape =
     replicate 8 H @ Lit CHR ''-'' # replicate 4 H @ Lit CHR ''-'' # replicate 4 H @
     Lit CHR ''-'' # replicate 4 H @ Lit CHR ''-'' # replicate 12 H"

text \<open>
  A matcher gets whether the character before the position is a word character (for
  \<open>\b\<close>) and the rest of the string from the position on; it returns the length of the
  match that the regular expression finds at this position, if any.

  The time stamp: the mandatory part, then \<open>(\.\d{3})?\<close> and \<open>[Z]?\<close>, both greedy;
  nothing follows them in the expression, so no backtracking takes place.
\<close>

definition match_timestamp :: "bool \<Rightarrow> string \<Rightarrow> nat option" where
  "match_timestamp pw s =
     (if fits ts_core s then
        (let r = drop 19 s;
             f = (if fits [Lit CHR ''.'', D, D, D] r then 4 else 0);
             z = (if fits [Lit CHR ''Z''] (drop f r) then 1 else 0)
         in Some (19 + f + z))
      else None)"

text \<open>
  \<open>\b\d+\b\<close>: a word boundary before the first digit, the longest run of digits, and a
  word boundary after it. A shorter run cannot match: it would end between two digits,
  where there is no boundary. \<open>num_tail\<close> walks the rest of the run and checks the
  boundary after it.
\<close>

fun num_tail :: "string \<Rightarrow> nat option" where
  "num_tail [] = Some 0"
| "num_tail (c # cs) =
     (if is_digit c then map_option Suc (num_tail cs)
      else if is_word c then None else Some 0)"

fun match_number :: "bool \<Rightarrow> string \<Rightarrow> nat option" where
  "match_number pw [] = None"
| "match_number pw (c # cs) =
     (if \<not> pw \<and> is_digit c then map_option Suc (num_tail cs) else None)"

definition match_uuid :: "bool \<Rightarrow> string \<Rightarrow> nat option" where
  "match_uuid pw s = (if fits uuid_shape s then Some 36 else None)"

text \<open>
  \<open>s.replace(/re/g, tok)\<close>: scan from the left; at a match write \<open>tok\<close> and go on
  after the match, otherwise copy one character. All three expressions match at least
  one character.
\<close>

fun gsub :: "(bool \<Rightarrow> string \<Rightarrow> nat option) \<Rightarrow> string \<Rightarrow> bool \<Rightarrow> string \<Rightarrow> string" where
  "gsub m tok pw [] = []"
| "gsub m tok pw (c # cs) =
     (case m pw (c # cs) of
        None \<Rightarrow> c # gsub m tok (is_word c) cs
      | Some n \<Rightarrow>
          tok @ gsub m tok (is_word (last (c # take (n - 1) cs))) (drop (n - 1) cs))"

text \<open>\<open>has_match m pw s\<close>: the matcher succeeds at some position of \<open>s\<close>.\<close>

fun has_match :: "(bool \<Rightarrow> string \<Rightarrow> nat option) \<Rightarrow> bool \<Rightarrow> string \<Rightarrow> bool" where
  "has_match m pw [] = False"
| "has_match m pw (c # cs) = (m pw (c # cs) \<noteq> None \<or> has_match m (is_word c) cs)"

definition normalizeMessage :: "string \<Rightarrow> string" where
  "normalizeMessage message =
     trim (toLowerCase
       (gsub match_uuid ''UUID'' False
         (gsub match_number ''NUMBER'' False
           (gsub match_timestamp ''TIMESTAMP'' False message))))"

section \<open>The memory store (server)\<close>

datatype js_error = TypeError | SyntaxError

text \<open>
  What the store reads from the platform during one call: the identifier drawn by
  \<open>generateId\<close>, \<open>new Date().toISOString()\<close>, \<open>Date.now()\<close>,
  \<open>new Date(str).getTime()\<close> (\<open>None\<close> for \<open>NaN\<close>, which compares false with every
  number) and the floating-point expression \<open>Math.round((a / b) * 100)\<close>.
\<close>

record env =
  newId :: string
  nowIso :: string
  nowMs :: int
  getTime :: "string \<Rightarrow> int option"
  roundPct :: "nat \<Rightarrow> nat \<Rightarrow> nat"

record semantics =
  hasIpAddress :: bool
  hasUrl :: bool
  hasStatusCode :: bool
  hasTimestamp :: bool
  hasDatabase :: bool
  hasNetwork :: bool
  hasAuth :: bool
  hasMemory :: bool
  hasSecurity :: bool

text \<open>
  \<open>error_data\<close> is the \<open>data\<close> object of an \<open>error\<close> message as \<open>handleError\<close> gets it
  from \<open>JSON.parse\<close>, a fresh object at every message. The agent's \<open>sendError\<close> sets
  every field but \<open>server\<close>, which the store's \<open>search\<close> reads: it is \<open>None\<close> when the
  object has no such property. A missing \<open>timestamp\<close> is the empty string: both are falsy,
  and \<open>addError\<close> only applies \<open>||\<close> to it.
\<close>

record error_data =
  serverId :: string
  serverName :: string
  server :: "string option"
  logFile :: string
  lineNumber :: int
  timestamp :: string
  errorMessage :: string
  parser :: string
  urgency :: int
  semantics :: semantics

text \<open>
  A stored error is the same object with the fields that \<open>addError\<close> adds; \<open>error_id\<close>
  is the property \<open>id\<close>.
\<close>

record stored_error = error_data +
  category :: string
  severity :: string
  error_id :: string
  count :: nat
  firstSeen :: string
  lastSeen :: string
  trend :: string

record pattern_entry =
  pcount :: nat
  servers :: "string list"
  plastSeen :: string

record insight =
  itype :: string
  title :: string
  description :: string
  confidence :: nat
  pattern :: "string option"

text \<open>
  \<open>patterns\<close> is a JavaScript \<open>Map\<close> and \<open>servers\<close> of an entry a \<open>Set\<close>: both keep the
  order of insertion, so they are lists without repetition. The field \<open>servers\<close> of
  \<open>MemoryStore\<close>, which nothing reads or writes, is left out.
\<close>

record memory_store =
  errors :: "stored_error list"
  insights :: "insight list"
  maxErrors :: nat
  patterns :: "(string \<times> pattern_entry) list"

definition new_store :: memory_store where
  "new_store = \<lparr>errors = [], insights = [], maxErrors = 1000, patterns = []\<rparr>"

definition set_add :: "'a \<Rightarrow> 'a list \<Rightarrow> 'a list" where
  "set_add x xs = (if x \<in> set xs then xs else xs @ [x])"

fun map_set :: "'k \<Rightarrow> 'v \<Rightarrow> ('k \<times> 'v) list \<Rightarrow> ('k \<times> 'v) list" where
  "map_set k v [] = [(k, v)]"
| "map_set k v ((k', v') # kvs) =
     (if k' = k then (k, v) # kvs else (k', v') # map_set k v kvs)"

definition some_includes :: "string \<Rightarrow> string list \<Rightarrow> bool" where
  "some_includes msg keywords = list_ex (\<lambda>keyword. str_includes msg keyword) keywords"

definition categories :: "(string \<times> string list) list" where
  "categories =
    [(''Database Connectivity'',
        [''connection'', ''timeout'', ''database'', ''db'', ''mysql'', ''postgres'', ''mongo'']),
     (''Authentication'',
        [''auth'', ''login'', ''password'', ''token'', ''permission'', ''unauthorized'',
         ''401'', ''403'']),
     (''Network Issues'',
        [''network'', ''dns'', ''host'', ''unreachable'', ''connection refused'', ''timeout'']),
     (''File System'',
        [''file'', ''directory'', ''permission denied'', ''disk'', ''space'', ''io error'']),
     (''Memory Issues'',
        [''memory'', ''oom'', ''heap'', ''stack overflow'', ''out of memory'']),
     (''Data Processing'',
        [''json'', ''parse'', ''format'', ''invalid'', ''malformed'', ''corrupt'']),
     (''Resource Management'',
        [''queue'', ''pool'', ''limit'', ''capacity'', ''overflow'', ''resource'']),
     (''Configuration'',
        [''config'', ''setting'', ''parameter'', ''missing'', ''invalid config'']),
     (''API Issues'',
        [''api'', ''endpoint'', ''route'', ''404'', ''500'', ''service unavailable'']),
     (''Security'',
        [''security'', ''attack'', ''breach'', ''suspicious'', ''blocked'', ''firewall''])]"

definition categorizeError :: "string \<Rightarrow> string" where
  "categorizeError message =
     (let msg = toLowerCase message in
      case find (\<lambda>(cat, keywords). some_includes msg keywords) categories of
        Some (cat, keywords) \<Rightarrow> cat
      | None \<Rightarrow> ''General'')"

definition calculateSeverity :: "string \<Rightarrow> string" where
  "calculateSeverity message =
     (let msg = toLowerCase message in
      if some_includes msg [''fatal'', ''critical'', ''emergency'', ''panic'', ''severe'']
      then ''critical''
      else if some_includes msg
                [''error'', ''fail'', ''exception'', ''timeout'', ''refused'', ''denied'']
      then ''high''
      else if some_includes msg [''warn'', ''warning'', ''deprecated'', ''retry'']
      then ''medium''
      else ''low'')"

text \<open>The test of \<open>findSimilarError\<close>: the same server, log file and normalised message.\<close>

definition similar :: "'a error_data_scheme \<Rightarrow> 'b error_data_scheme \<Rightarrow> bool" where
  "similar error newError =
     (serverId error = serverId newError \<and>
      logFile error = logFile newError \<and>
      normalizeMessage (errorMessage error) = normalizeMessage (errorMessage newError))"

fun find_index :: "('a \<Rightarrow> bool) \<Rightarrow> 'a list \<Rightarrow> nat option" where
  "find_index P [] = None"
| "find_index P (x # xs) = (if P x then Some 0 else map_option Suc (find_index P xs))"

text \<open>
  \<open>Array.prototype.find\<close> returns the first object that passes the test; \<open>addError\<close>
  then writes to this object, so the model returns its position in the list.
\<close>

definition findSimilarError :: "stored_error list \<Rightarrow> 'a error_data_scheme \<Rightarrow> nat option" where
  "findSimilarError errs newError = find_index (\<lambda>error. similar error newError) errs"

definition recent :: "env \<Rightarrow> string \<Rightarrow> bool" where
  "recent E seen =
     (case getTime E seen of None \<Rightarrow> False | Some t \<Rightarrow> t > nowMs E - 60 * 60 * 1000)"

definition calculateTrend :: "env \<Rightarrow> stored_error list \<Rightarrow> stored_error \<Rightarrow> string" where
  "calculateTrend E errs error =
     (let recentCount = length (filter (\<lambda>e.
            error_id e \<noteq> error_id error \<and>
            normalizeMessage (errorMessage e) = normalizeMessage (errorMessage error) \<and>
            recent E (lastSeen e)) errs)
      in if recentCount = 0 then ''new''
         else if recentCount > 5 then ''increasing''
         else if recentCount < 2 then ''decreasing''
         else ''stable'')"

text \<open>A number in a template string: its decimal digits.\<close>

fun show_nat :: "nat \<Rightarrow> string" where
  "show_nat n =
     (if n < 10 then [char_of (48 + n)]
      else show_nat (n div 10) @ [char_of (48 + n mod 10)])"

declare show_nat.simps [simp del]

text \<open>
  The object \<open>categories\<close> of \<open>generateInsights\<close>: the count of each category, in the order
  in which the categories come up; \<open>Object.entries\<close> lists it in this order, the sort is
  stable and descending by count, and \<open>[0]\<close> takes its first entry.
\<close>

definition bump :: "string \<Rightarrow> (string \<times> nat) list \<Rightarrow> (string \<times> nat) list" where
  "bump k m = map_set k ((case map_of m k of None \<Rightarrow> 0 | Some n \<Rightarrow> n) + 1) m"

definition topCategory :: "(string \<times> nat) list \<Rightarrow> (string \<times> nat) option" where
  "topCategory m =
     (case sort_key (\<lambda>(k, n). - int n) m of [] \<Rightarrow> None | entry # rest \<Rightarrow> Some entry)"

definition pattern_insights :: "(string \<times> pattern_entry) list \<Rightarrow> insight list" where
  "pattern_insights ps =
     concat (map (\<lambda>(pat, data).
       if pcount data > 5 \<and> length (servers data) > 1
       then [\<lparr>itype = ''pattern'',
              title = ''Cross-server error pattern detected'',
              description = ''Similar errors occurring across '' @
                            show_nat (length (servers data)) @ '' servers'',
              confidence = min 95 (60 + pcount data * 2),
              pattern = Some pat\<rparr>]
       else []) ps)"

definition anomaly_insights :: "env \<Rightarrow> stored_error list \<Rightarrow> insight list" where
  "anomaly_insights E errs =
     (let recentErrors = filter (\<lambda>e. recent E (lastSeen e)) errs in
      if length recentErrors > 10 then
        (case topCategory (foldl (\<lambda>m e. bump (category e) m) [] recentErrors) of
           None \<Rightarrow> []
         | Some (cat, n) \<Rightarrow>
             if n > 3
             then [\<lparr>itype = ''anomaly'',
                    title = ''Spike in '' @ cat @ '' errors'',
                    description = show_nat n @ '' errors in the last hour - '' @
                                  show_nat (roundPct E n (length recentErrors)) @
                                  ''% of all recent errors'',
                    confidence = 85,
                    pattern = None\<rparr>]
             else [])
      else [])"

definition recommendation_insights :: "stored_error list \<Rightarrow> insight list" where
  "recommendation_insights errs =
     (let dbErrors = length (filter (\<lambda>e. category e = ''Database Connectivity'') errs) in
      if dbErrors > 3
      then [\<lparr>itype = ''recommendation'',
             title = ''Database connection optimization needed'',
             description = ''Consider implementing connection pooling and retry mechanisms'',
             confidence = 78,
             pattern = None\<rparr>]
      else [])"

text \<open>The list that \<open>generateInsights\<close> computes from the store and the clock.\<close>

definition derive_insights :: "env \<Rightarrow> memory_store \<Rightarrow> insight list" where
  "derive_insights E s =
     take 5 (pattern_insights (patterns s) @ anomaly_insights E (errors s) @
             recommendation_insights (errors s))"

definition generateInsights :: "env \<Rightarrow> memory_store \<Rightarrow> memory_store" where
  "generateInsights E s = s\<lparr>insights := derive_insights E s\<rparr>"

definition updatePatterns :: "env \<Rightarrow> stored_error \<Rightarrow> memory_store \<Rightarrow> memory_store" where
  "updatePatterns E error s =
     (let pat = normalizeMessage (errorMessage error);
          current = (case map_of (patterns s) pat of
                       Some entry \<Rightarrow> entry
                     | None \<Rightarrow> \<lparr>pcount = 0, servers = [], plastSeen = []\<rparr>);
          current = current\<lparr>pcount := pcount current + 1,
                            servers := set_add (serverId error) (servers current),
                            plastSeen := timestamp error\<rparr>
      in generateInsights E (s\<lparr>patterns := map_set pat current (patterns s)\<rparr>))"

text \<open>
  \<open>addError\<close> returns the stored object and the store after the call. In the branch of
  an existing record, \<open>calculateTrend\<close> runs on the list in which the record already has
  its new \<open>count\<close> and \<open>lastSeen\<close>.
\<close>

definition addError :: "env \<Rightarrow> error_data \<Rightarrow> memory_store \<Rightarrow> stored_error \<times> memory_store" where
  "addError E error s =
     (let cat = categorizeError (errorMessage error);
          sev = calculateSeverity (errorMessage error);
          new_id = newId E;
          ts = (if timestamp error = [] then nowIso E else timestamp error)
      in case findSimilarError (errors s) error of
           Some i \<Rightarrow>
             (let existing = errors s ! i;
                  existing = existing\<lparr>count := count existing + 1, lastSeen := ts\<rparr>;
                  errs = (errors s)[i := existing];
                  existing = existing\<lparr>trend := calculateTrend E errs existing\<rparr>
              in (existing, s\<lparr>errors := errs[i := existing]\<rparr>))
         | None \<Rightarrow>
             (let stored = \<lparr>serverId = serverId error, serverName = serverName error,
                            server = server error, logFile = logFile error,
                            lineNumber = lineNumber error, timestamp = ts,
                            errorMessage = errorMessage error, parser = parser error,
                            urgency = urgency error, semantics = semantics error,
                            category = cat, severity = sev, error_id = new_id, count = 1,
                            firstSeen = ts, lastSeen = ts, trend = ''new''\<rparr>;
                  errs = stored # errors s;
                  errs = (if length errs > maxErrors s then take (maxErrors s) errs else errs)
              in (stored, updatePatterns E stored (s\<lparr>errors := errs\<rparr>))))"

text \<open>The store after a sequence of calls, each with what it reads from the platform.\<close>

fun addErrors :: "(env \<times> error_data) list \<Rightarrow> memory_store \<Rightarrow> memory_store" where
  "addErrors [] s = s"
| "addErrors ((E, error) # rest) s = addErrors rest (snd (addError E error s))"

subsection \<open>Search\<close>

text \<open>\<open>xs.filter(f)\<close> where the callback may throw: the first exception ends the call.\<close>

fun filter_e :: "('a \<Rightarrow> js_error + bool) \<Rightarrow> 'a list \<Rightarrow> js_error + 'a list" where
  "filter_e f [] = Inr []"
| "filter_e f (x # xs) =
     (case f x of
        Inl err \<Rightarrow> Inl err
      | Inr keep \<Rightarrow>
          (case filter_e f xs of
             Inl err \<Rightarrow> Inl err
           | Inr ys \<Rightarrow> Inr (if keep then x # ys else ys)))"

fun apply_filters ::
  "('a \<Rightarrow> js_error + bool) list \<Rightarrow> 'a list \<Rightarrow> js_error + 'a list" where
  "apply_filters [] results = Inr results"
| "apply_filters (f # fs) results =
     (case filter_e f results of Inl err \<Rightarrow> Inl err | Inr ys \<Rightarrow> apply_filters fs ys)"

text \<open>
  \<open>e.server.toLowerCase().includes(w)\<close>: a \<open>TypeError\<close> when the object has no property
  \<open>server\<close>.
\<close>

definition server_includes :: "stored_error \<Rightarrow> string \<Rightarrow> js_error + bool" where
  "server_includes e w =
     (case server e of
        None \<Rightarrow> Inl TypeError
      | Some name \<Rightarrow> Inr (str_includes (toLowerCase name) w))"

text \<open>
  \<open>q.match(/server[- ]?(\w+)/)\<close>, the first capture group of the leftmost match. Where
  \<open>server\<close> stands, the optional separator is taken if it is there; if no word character
  follows it, giving the separator back does not help, since the separator is not a word
  character.
\<close>

definition server_at :: "string \<Rightarrow> string option" where
  "server_at s =
     (if starts_with ''server'' s then
        (let r = drop 6 s;
             r = (case r of
                    [] \<Rightarrow> r
                  | x # xs \<Rightarrow> if x = CHR ''-'' \<or> x = CHR '' '' then xs else r);
             w = takeWhile is_word r
         in if w = [] then None else Some w)
      else None)"

fun server_match :: "string \<Rightarrow> string option" where
  "server_match [] = None"
| "server_match (c # cs) =
     (case server_at (c # cs) of Some w \<Rightarrow> Some w | None \<Rightarrow> server_match cs)"

definition search_filters :: "string \<Rightarrow> (stored_error \<Rightarrow> js_error + bool) list" where
  "search_filters q =
     (if str_includes q ''critical'' \<or> str_includes q ''urgent''
      then [\<lambda>e. Inr (severity e = ''critical'')] else []) @
     (if str_includes q ''database'' \<or> str_includes q ''db''
      then [\<lambda>e. Inr (category e = ''Database Connectivity'')] else []) @
     (if str_includes q ''timeout''
      then [\<lambda>e. Inr (str_includes (toLowerCase (errorMessage e)) ''timeout'')] else []) @
     (if str_includes q ''new'' \<or> str_includes q ''recent''
      then [\<lambda>e. Inr (trend e = ''new'' \<or> trend e = ''increasing'')] else []) @
     (if str_includes q ''server''
      then (case server_match q of
              None \<Rightarrow> []
            | Some w \<Rightarrow>
                [\<lambda>e. if str_includes (serverId e) w then Inr True else server_includes e w])
      else [])"

definition text_filter :: "string \<Rightarrow> stored_error \<Rightarrow> js_error + bool" where
  "text_filter q e =
     (if str_includes (toLowerCase (errorMessage e)) q then Inr True
      else case server_includes e q of
             Inl err \<Rightarrow> Inl err
           | Inr True \<Rightarrow> Inr True
           | Inr False \<Rightarrow> Inr (str_includes (toLowerCase (category e)) q))"

definition search :: "memory_store \<Rightarrow> string \<Rightarrow> js_error + stored_error list" where
  "search s query =
     (if query = [] then Inr (take 50 (errors s))
      else
        (let q = toLowerCase query;
             filters = search_filters q
         in case apply_filters filters (errors s) of
              Inl err \<Rightarrow> Inl err
            | Inr results \<Rightarrow>
                (case (if length results = length (errors s) \<and> length filters = 0
                       then filter_e (text_filter q) (errors s)
                       else Inr results) of
                   Inl err \<Rightarrow> Inl err
                 | Inr results \<Rightarrow> Inr (take 100 results))))"

section \<open>The agent: reconnection\<close>

text \<open>
  The part of \<open>LogScopeAgent\<close> that \<open>connect\<close> and \<open>scheduleReconnect\<close> read and write.
  Delays are whole milliseconds. The delay that the model computes is the one of the
  floating-point expression whenever \<open>reconnectDelay\<close> is positive: a product beyond the
  range of a double is \<open>Infinity\<close>, and the minimum is 60000 either way.
\<close>

record agent =
  reconnectDelay :: int
  maxReconnectAttempts :: int
  running :: bool
  reconnectAttempts :: nat

text \<open>
  \<open>mergeDefaults\<close> for the two reconnection settings: \<open>config.x || default\<close> comes
  first and the spread \<open>...config\<close> after it, so a setting that the configuration has
  is taken as it is, also when it is 0.
\<close>

definition mergeDefaults :: "int option \<Rightarrow> int option \<Rightarrow> agent" where
  "mergeDefaults delay attempts =
     \<lparr>reconnectDelay = (case delay of None \<Rightarrow> 5000 | Some d \<Rightarrow> d),
      maxReconnectAttempts = (case attempts of None \<Rightarrow> - 1 | Some m \<Rightarrow> m),
      running = False,
      reconnectAttempts = 0\<rparr>"

text \<open>
  \<open>scheduleReconnect\<close> returns the agent and the delay of the timer it sets, \<open>None\<close>
  when it sets none.
\<close>

definition scheduleReconnect :: "agent \<Rightarrow> agent \<times> int option" where
  "scheduleReconnect a =
     (if maxReconnectAttempts a > 0 \<and> int (reconnectAttempts a) \<ge> maxReconnectAttempts a
      then (a, None)
      else
        (let a = a\<lparr>reconnectAttempts := reconnectAttempts a + 1\<rparr>;
             delay = min (reconnectDelay a * 2 ^ (reconnectAttempts a - 1)) 60000
         in (a, Some delay)))"

text \<open>The handlers that \<open>connect\<close> installs for \<open>open\<close> and \<open>close\<close>.\<close>

definition on_open :: "agent \<Rightarrow> agent" where
  "on_open a = a\<lparr>reconnectAttempts := 0\<rparr>"

definition on_close :: "agent \<Rightarrow> agent \<times> int option" where
  "on_close a = (if running a then scheduleReconnect a else (a, None))"

text \<open>\<open>closes n a\<close>: \<open>n\<close> closes in a row, no open between them; the last one's result.\<close>

fun closes :: "nat \<Rightarrow> agent \<Rightarrow> agent \<times> int option" where
  "closes 0 a = (a, None)"
| "closes (Suc n) a = on_close (fst (closes n a))"

section \<open>The file tailer\<close>














section \<open>The log parser (agent)\<close>

text \<open>
  A value that \<open>JSON.parse\<close> returns. Numbers are whole numbers here: the code asks
  whether a number is zero and adds 1 to it. An object is the list of its own
  properties, no key twice. \<open>undefined\<close> is \<open>None\<close> of \<open>json option\<close>.
\<close>

datatype json =
  JNull | JBool bool | JNum int | JStr string | JArr "json list" | JObj "(string \<times> json) list"

text \<open>
  The regular expressions of the parser, by the place where the source writes them:
  the three patterns of \<open>parseGeneric\<close> in their order, \<open>nginxPattern\<close>, \<open>apachePattern\<close>,
  \<open>syslogPattern\<close>, the test of \<open>isSyslogFormat\<close>, the four tests of \<open>extractSemantics\<close>
  and the test for the syslog form in \<open>parseTimestamp\<close>.
\<close>

datatype regex =
  GenericBracket | GenericIso | GenericLevel | NginxPattern | ApachePattern |
  SyslogPattern | SyslogFormat | IpAddress | Url | StatusCode | IsoDate | SyslogTime

text \<open>
  What the parser takes from the platform: \<open>JSON.parse\<close> (\<open>None\<close> when it throws),
  \<open>str.match(re)\<close> (the match and its groups, \<open>None\<close> for \<open>null\<close>), \<open>re.test(v)\<close> on any
  value, \<open>new Date(v).toISOString()\<close> (\<open>None\<close> for an invalid date),
  \<open>new Date().toISOString()\<close>, the year of the template string in \<open>parseTimestamp\<close>, and
  the conversion of a value to a string in that template.
\<close>

record platform =
  jsonParse :: "string \<Rightarrow> json option"
  re_match :: "regex \<Rightarrow> string \<Rightarrow> string list option"
  re_test :: "regex \<Rightarrow> json \<Rightarrow> bool"
  dateIso :: "json \<Rightarrow> string option"
  pnow :: string
  currentYear :: string
  toStr :: "json \<Rightarrow> string"

record raw_event =
  ev_timestamp :: string
  level :: string
  message :: json
  originalLine :: string
  ev_parser :: string
  metadata :: "(string \<times> json option) list option"

record parsed_event =
  pe_timestamp :: string
  pe_level :: string
  pe_message :: string
  pe_originalLine :: string
  pe_parser :: string
  pe_metadata :: "(string \<times> json option) list option"
  pe_semantics :: semantics
  pe_urgency :: int

fun truthy :: "json option \<Rightarrow> bool" where
  "truthy None = False"
| "truthy (Some JNull) = False"
| "truthy (Some (JBool b)) = b"
| "truthy (Some (JNum n)) = (n \<noteq> 0)"
| "truthy (Some (JStr s)) = (s \<noteq> [])"
| "truthy (Some (JArr xs)) = True"
| "truthy (Some (JObj kvs)) = True"

text \<open>\<open>a || b\<close>.\<close>

definition js_or :: "json option \<Rightarrow> json option \<Rightarrow> json option" where
  "js_or a b = (if truthy a then a else b)"

text \<open>
  \<open>json.key\<close> for the keys that \<open>parseJSON\<close> reads: a \<open>TypeError\<close> on \<open>null\<close>, the
  property of an object, \<open>undefined\<close> on every other value.
\<close>

fun get_prop :: "json \<Rightarrow> string \<Rightarrow> js_error + json option" where
  "get_prop JNull k = Inl TypeError"
| "get_prop (JObj kvs) k = Inr (map_of kvs k)"
| "get_prop v k = Inr None"

text \<open>
  \<open>toUpperCase\<close>: \<open>a\<close> to \<open>z\<close> and the small letters of Latin-1 (0xE0 to 0xFE without
  the division sign 0xF7) go to the letter 0x20 below them, and the sharp s (0xDF) to
  \<open>SS\<close>. The capitals of the micro sign (0xB5) and of y with diaeresis (0xFF) are
  beyond 0xFF; these two characters are left as they are.
\<close>

definition upper_char :: "char \<Rightarrow> string" where
  "upper_char c =
     (if is_lower c \<or> c \<in> set latin1_smalls then [char_of (of_char c - (32::nat))]
      else if c = CHR 0xDF then ''SS''
      else [c])"

definition toUpperCase :: "string \<Rightarrow> string" where
  "toUpperCase s = concat (map upper_char s)"

definition parseTimestamp :: "platform \<Rightarrow> json option \<Rightarrow> string" where
  "parseTimestamp P timestampStr =
     (case timestampStr of
        None \<Rightarrow> pnow P
      | Some v \<Rightarrow>
          if \<not> truthy (Some v) then pnow P
          else
            (let dateStr = (if re_test P SyslogTime v
                            then JStr (currentYear P @ '' '' @ toStr P v) else v)
             in case dateIso P dateStr of None \<Rightarrow> pnow P | Some parsed \<Rightarrow> parsed))"

definition level_mappings :: "(string \<times> string) list" where
  "level_mappings =
     [(''E'', ''ERROR''), (''ERR'', ''ERROR''), (''FATAL'', ''ERROR''),
      (''CRITICAL'', ''ERROR''), (''CRIT'', ''ERROR''),
      (''W'', ''WARN''), (''WARNING'', ''WARN''), (''WARN'', ''WARN''),
      (''I'', ''INFO''), (''NOTICE'', ''INFO''), (''LOG'', ''INFO''),
      (''D'', ''DEBUG''), (''TRACE'', ''DEBUG''), (''VERBOSE'', ''DEBUG'')]"

text \<open>\<open>level.toUpperCase()\<close> is a \<open>TypeError\<close> on a truthy value that is no string.\<close>

definition normalizeLevel :: "json option \<Rightarrow> js_error + string" where
  "normalizeLevel lvl =
     (if \<not> truthy lvl then Inr ''INFO''
      else case lvl of
             Some (JStr l) \<Rightarrow>
               (let normalized = toUpperCase l in
                case map_of level_mappings normalized of
                  Some mapped \<Rightarrow> Inr mapped
                | None \<Rightarrow> Inr normalized)
           | _ \<Rightarrow> Inl TypeError)"

definition detectLevelFromContent :: "string \<Rightarrow> string" where
  "detectLevelFromContent content =
     (let lower = toLowerCase content in
      if some_includes lower
           [''error'', ''exception'', ''failed'', ''failure'', ''timeout'', ''refused'',
            ''denied'', ''fatal'', ''critical'', ''panic'', ''abort'']
      then ''ERROR''
      else if some_includes lower
                [''warning'', ''warn'', ''deprecated'', ''retry'', ''fallback'', ''slow'']
      then ''WARN''
      else ''INFO'')"

text \<open>
  One pattern of \<open>parseGeneric\<close> on a match \<open>m\<close>: \<open>m[1]\<close> is the time when the match has
  more than three entries, \<open>m[length - 2]\<close> the level, \<open>m[length - 1]\<close> the message. The
  platform returns as many entries as the expression has groups, plus one; an entry that
  is not there would be \<open>undefined\<close>, on which \<open>trim\<close> is a \<open>TypeError\<close>.
\<close>

definition generic_event :: "platform \<Rightarrow> string \<Rightarrow> string list \<Rightarrow> js_error + raw_event" where
  "generic_event P line m =
     (if length m < 2 then Inl TypeError
      else case normalizeLevel (Some (JStr (m ! (length m - 2)))) of
             Inl err \<Rightarrow> Inl err
           | Inr lvl \<Rightarrow>
               Inr \<lparr>ev_timestamp = (if length m > 3 then parseTimestamp P (Some (JStr (m ! 1)))
                                      else pnow P),
                    level = lvl,
                    message = JStr (trim (m ! (length m - 1))),
                    originalLine = line,
                    ev_parser = ''generic'',
                    metadata = None\<rparr>)"

fun first_match :: "platform \<Rightarrow> regex list \<Rightarrow> string \<Rightarrow> string list option" where
  "first_match P [] line = None"
| "first_match P (r # rs) line =
     (case re_match P r line of Some m \<Rightarrow> Some m | None \<Rightarrow> first_match P rs line)"

definition parseGeneric :: "platform \<Rightarrow> string \<Rightarrow> js_error + raw_event" where
  "parseGeneric P line =
     (case first_match P [GenericBracket, GenericIso, GenericLevel] line of
        Some m \<Rightarrow> generic_event P line m
      | None \<Rightarrow>
          Inr \<lparr>ev_timestamp = pnow P,
               level = detectLevelFromContent line,
               message = JStr (trim line),
               originalLine = line,
               ev_parser = ''fallback'',
               metadata = None\<rparr>)"

text \<open>
  The body of the \<open>try\<close> in \<open>parseJSON\<close>: the properties are read in the order of the
  object literal, and the first exception leaves the block.
\<close>

definition json_event :: "platform \<Rightarrow> string \<Rightarrow> json \<Rightarrow> js_error + raw_event" where
  "json_event P line j =
     (case get_prop j ''timestamp'' of
        Inl err \<Rightarrow> Inl err
      | Inr unused \<Rightarrow>
          (let prop = (\<lambda>k. case get_prop j k of Inl err \<Rightarrow> None | Inr v \<Rightarrow> v) in
           case normalizeLevel
                  (js_or (js_or (prop ''level'') (prop ''severity'')) (Some (JStr ''INFO''))) of
             Inl err \<Rightarrow> Inl err
           | Inr lvl \<Rightarrow>
               Inr \<lparr>ev_timestamp = parseTimestamp P
                                     (js_or (js_or (prop ''timestamp'') (prop ''time''))
                                            (prop ''@timestamp'')),
                    level = lvl,
                    message = (case js_or (js_or (js_or (prop ''message'') (prop ''msg''))
                                                 (prop ''text''))
                                          (Some (JStr line)) of
                                 Some v \<Rightarrow> v
                               | None \<Rightarrow> JStr line),
                    originalLine = line,
                    ev_parser = ''json'',
                    metadata = Some [(''service'', prop ''service''),
                                     (''version'', prop ''version''),
                                     (''trace_id'', prop ''trace_id''),
                                     (''user_id'', prop ''user_id'')]\<rparr>))"

definition parseJSON :: "platform \<Rightarrow> string \<Rightarrow> js_error + raw_event" where
  "parseJSON P line =
     (case jsonParse P line of
        None \<Rightarrow> parseGeneric P line
      | Some j \<Rightarrow>
          (case json_event P line j of
             Inl err \<Rightarrow> parseGeneric P line
           | Inr ev \<Rightarrow> Inr ev))"

text \<open>\<open>str.replace(/\//g, '-')\<close>.\<close>

definition slashes_to_dashes :: "string \<Rightarrow> string" where
  "slashes_to_dashes s = map (\<lambda>c. if c = CHR ''/'' then CHR ''-'' else c) s"

definition parseNginx :: "platform \<Rightarrow> string \<Rightarrow> js_error + raw_event" where
  "parseNginx P line =
     (case re_match P NginxPattern line of
        Some m \<Rightarrow>
          (if length m < 4 then Inl TypeError
           else case normalizeLevel (Some (JStr (m ! 2))) of
                  Inl err \<Rightarrow> Inl err
                | Inr lvl \<Rightarrow>
                    Inr \<lparr>ev_timestamp = parseTimestamp P (Some (JStr (slashes_to_dashes (m ! 1)))),
                         level = lvl,
                         message = JStr (m ! 3),
                         originalLine = line,
                         ev_parser = ''nginx'',
                         metadata = None\<rparr>)
      | None \<Rightarrow> parseGeneric P line)"

definition parseApache :: "platform \<Rightarrow> string \<Rightarrow> js_error + raw_event" where
  "parseApache P line =
     (case re_match P ApachePattern line of
        Some m \<Rightarrow>
          (if length m < 4 then Inl TypeError
           else case normalizeLevel (Some (JStr (m ! 2))) of
                  Inl err \<Rightarrow> Inl err
                | Inr lvl \<Rightarrow>
                    Inr \<lparr>ev_timestamp = parseTimestamp P (Some (JStr (m ! 1))),
                         level = lvl,
                         message = JStr (m ! 3),
                         originalLine = line,
                         ev_parser = ''apache'',
                         metadata = None\<rparr>)
      | None \<Rightarrow> parseGeneric P line)"

definition parseSyslog :: "platform \<Rightarrow> string \<Rightarrow> js_error + raw_event" where
  "parseSyslog P line =
     (case re_match P SyslogPattern line of
        Some m \<Rightarrow>
          (if length m < 5 then Inl TypeError
           else Inr \<lparr>ev_timestamp = parseTimestamp P (Some (JStr (m ! 1))),
                     level = detectLevelFromContent (m ! 4),
                     message = JStr (m ! 4),
                     originalLine = line,
                     ev_parser = ''syslog'',
                     metadata = Some [(''hostname'', Some (JStr (m ! 2))),
                                      (''service'', Some (JStr (m ! 3)))]\<rparr>)
      | None \<Rightarrow> parseGeneric P line)"

definition isSyslogFormat :: "platform \<Rightarrow> string \<Rightarrow> bool" where
  "isSyslogFormat P line = re_test P SyslogFormat (JStr line)"

definition parseAuto :: "platform \<Rightarrow> string \<Rightarrow> js_error + raw_event" where
  "parseAuto P line =
     (if starts_with ''{'' (trim line) then parseJSON P line
      else if str_includes line ''nginx'' then parseNginx P line
      else if str_includes line ''apache'' then parseApache P line
      else if isSyslogFormat P line then parseSyslog P line
      else parseGeneric P line)"

text \<open>\<open>message.toLowerCase()\<close> is a \<open>TypeError\<close> when the message is no string.\<close>

definition extractSemantics :: "platform \<Rightarrow> json \<Rightarrow> js_error + semantics" where
  "extractSemantics P msg =
     (case msg of
        JStr m \<Rightarrow>
          (let lower = toLowerCase m in
           Inr \<lparr>hasIpAddress = re_test P IpAddress msg,
                hasUrl = re_test P Url msg,
                hasStatusCode = re_test P StatusCode msg,
                hasTimestamp = re_test P IsoDate msg,
                hasDatabase = some_includes lower
                  [''database'', ''db'', ''sql'', ''query'', ''table'', ''connection''],
                hasNetwork = some_includes lower
                  [''network'', ''socket'', ''connection'', ''host'', ''port''],
                hasAuth = some_includes lower
                  [''auth'', ''login'', ''password'', ''token'', ''permission''],
                hasMemory = some_includes lower [''memory'', ''heap'', ''oom'', ''malloc''],
                hasSecurity = some_includes lower
                  [''security'', ''attack'', ''breach'', ''suspicious'']\<rparr>)
      | _ \<Rightarrow> Inl TypeError)"

definition levelScores :: "(string \<times> int) list" where
  "levelScores = [(''ERROR'', 8), (''WARN'', 4), (''INFO'', 1), (''DEBUG'', 0)]"

definition calculateUrgency :: "string \<Rightarrow> semantics \<Rightarrow> string \<Rightarrow> int" where
  "calculateUrgency lvl sem msg =
     (let score = (case map_of levelScores lvl of Some n \<Rightarrow> n | None \<Rightarrow> 0);
          score = score + (if hasDatabase sem then 2 else 0);
          score = score + (if hasNetwork sem then 1 else 0);
          score = score + (if hasAuth sem then 3 else 0);
          score = score + (if hasSecurity sem then 5 else 0);
          score = score + (if hasMemory sem then 2 else 0);
          score = score + (if hasStatusCode sem then 1 else 0);
          m = toLowerCase msg;
          score = score + (if str_includes m ''critical'' \<or> str_includes m ''fatal''
                           then 3 else 0);
          score = score + (if str_includes m ''timeout'' then 2 else 0);
          score = score + (if str_includes m ''failed'' \<or> str_includes m ''failure''
                           then 2 else 0)
      in min 10 score)"

text \<open>
  The properties that the object \<open>this.parsers\<close> inherits from \<open>Object.prototype\<close>.
  \<open>this.parsers[type]\<close> finds them too; none of them is a parser: called with the line,
  each throws a \<open>TypeError\<close> or returns a value without a property \<open>message\<close>, on which
  \<open>extractSemantics\<close> throws one, and \<open>__proto__\<close> is no function.
\<close>

definition object_prototype_names :: "string list" where
  "object_prototype_names =
     [''constructor'', ''hasOwnProperty'', ''isPrototypeOf'', ''propertyIsEnumerable'',
      ''toLocaleString'', ''toString'', ''valueOf'', ''__proto__'',
      ''__defineGetter__'', ''__defineSetter__'', ''__lookupGetter__'', ''__lookupSetter__'']"

text \<open>
  \<open>parse\<close>: the parser that the type of the log file names, \<open>parseAuto\<close> for a type
  that names no property of \<open>this.parsers\<close>; then the semantics and the urgency. Nothing
  in \<open>parse\<close> catches an exception.
\<close>

definition parse :: "platform \<Rightarrow> string \<Rightarrow> string \<Rightarrow> js_error + parsed_event" where
  "parse P line logType =
     (case (if logType = ''nginx'' then parseNginx P line
            else if logType = ''apache'' then parseApache P line
            else if logType = ''json'' then parseJSON P line
            else if logType = ''syslog'' then parseSyslog P line
            else if logType \<in> set object_prototype_names then Inl TypeError
            else parseAuto P line) of
        Inl err \<Rightarrow> Inl err
      | Inr result \<Rightarrow>
          (case extractSemantics P (message result) of
             Inl err \<Rightarrow> Inl err
           | Inr sem \<Rightarrow>
               (case message result of
                  JStr m \<Rightarrow>
                    Inr \<lparr>pe_timestamp = ev_timestamp result,
                         pe_level = level result,
                         pe_message = m,
                         pe_originalLine = originalLine result,
                         pe_parser = ev_parser result,
                         pe_metadata = metadata result,
                         pe_semantics = sem,
                         pe_urgency = calculateUrgency (level result) sem m\<rparr>
                | _ \<Rightarrow> Inl TypeError)))"

section \<open>The server: agent records and \<open>GET /api/servers\<close>\<close>















text \<open>
  What reaches the agent map: the three messages of \<open>handleAgentMessage\<close>, each with its
  data and, for \<open>register\<close>, the connection it came over, and the close of a connection.
  The handler of \<open>message\<close> catches what a message throws and goes on with the map as it
  is then; every handler writes to the map after the last statement that can throw.
\<close>

datatype server_event = Register json nat | Error json | Stats json | Close nat





section \<open>Notions used in the statements\<close>

text \<open>The key of deduplication: server, log file and normalised message.\<close>

definition fingerprint :: "'a error_data_scheme \<Rightarrow> string \<times> string \<times> string" where
  "fingerprint e = (serverId e, logFile e, normalizeMessage (errorMessage e))"

text \<open>
  A stored error without the three fields that a merge rewrites: what is left is what
  the record got when it was created.
\<close>

definition as_created :: "stored_error \<Rightarrow> stored_error" where
  "as_created e = e\<lparr>count := 0, lastSeen := [], trend := []\<rparr>"

text \<open>
  The records that a sequence of calls has created, the latest first: one for every call
  that found no similar error in the store.
\<close>

fun created :: "(env \<times> error_data) list \<Rightarrow> memory_store \<Rightarrow> stored_error list" where
  "created [] s = []"
| "created ((E, error) # rest) s =
     created rest (snd (addError E error s)) @
     (case findSimilarError (errors s) error of
        None \<Rightarrow> [fst (addError E error s)]
      | Some i \<Rightarrow> [])"




text \<open>
  For the proofs about \<open>gsub\<close>: \<open>pfit ks s\<close> says that the string \<open>s\<close>, as far as it
  reaches, fits the classes \<open>ks\<close>; a token that fits no suffix of \<open>ks\<close>, and no suffix of
  which fits \<open>ks\<close>, can be no part of an occurrence of \<open>ks\<close>.
\<close>

fun pfit :: "cls list \<Rightarrow> string \<Rightarrow> bool" where
  "pfit [] s = True"
| "pfit (k # ks) [] = True"
| "pfit (k # ks) (c # cs) = (cls_ok k c \<and> pfit ks cs)"

fun no_fit_from :: "cls list \<Rightarrow> string \<Rightarrow> bool" where
  "no_fit_from [] tok = True"
| "no_fit_from (k # ks) tok = (\<not> pfit (k # ks) tok \<and> no_fit_from ks tok)"

fun no_fit_into :: "cls list \<Rightarrow> string \<Rightarrow> bool" where
  "no_fit_into ks [] = True"
| "no_fit_into ks (c # cs) = (\<not> pfit ks (c # cs) \<and> no_fit_into ks cs)"

section \<open>Concrete inputs\<close>

definition env0 :: env where
  "env0 =
     \<lparr>newId = ''0011223344556677'',
      nowIso = ''2025-08-01T10:01:00.000Z'',
      nowMs = 1754042460000,
      getTime = (\<lambda>s. if s = ''2025-08-01T10:00:00.000Z'' then Some 1754042400000
                      else if s = ''2025-08-01T08:00:00.000Z'' then Some 1754035200000
                      else if s = ''2025-08-01T10:01:00.000Z'' then Some 1754042460000
                      else None),
      roundPct = (\<lambda>a b. (200 * a + b) div (2 * b))\<rparr>"

definition no_semantics :: semantics where
  "no_semantics =
     \<lparr>hasIpAddress = False, hasUrl = False, hasStatusCode = False, hasTimestamp = False,
      hasDatabase = False, hasNetwork = False, hasAuth = False, hasMemory = False,
      hasSecurity = False\<rparr>"

text \<open>An \<open>error\<close> message as \<open>sendError\<close> builds it: no property \<open>server\<close>.\<close>

definition sent_error :: "string \<Rightarrow> string \<Rightarrow> string \<Rightarrow> error_data" where
  "sent_error sid ts msg =
     \<lparr>serverId = sid, serverName = ''web'', server = None, logFile = ''/var/log/app.log'',
      lineNumber = 3, timestamp = ts, errorMessage = msg, parser = ''generic'',
      urgency = 10, semantics = no_semantics\<rparr>"

definition disk_store :: memory_store where
  "disk_store = snd (addError env0 (sent_error ''s1'' [] ''disk full'') new_store)"

text \<open>
  Eleven servers report the same time-out: the first with a time two hours before the
  clock of \<open>env0\<close>, the others with a time one minute before it.
\<close>

definition timeout_calls :: "(env \<times> error_data) list" where
  "timeout_calls =
     (env0, sent_error ''s0'' ''2025-08-01T08:00:00.000Z'' ''timeout'') #
     map (\<lambda>sid. (env0, sent_error sid ''2025-08-01T10:00:00.000Z'' ''timeout''))
       [''s1'', ''s2'', ''s3'', ''s4'', ''s5'', ''s6'', ''s7'', ''s8'', ''s9'', ''s10'']"

definition timeout_store :: memory_store where
  "timeout_store = addErrors timeout_calls new_store"

definition timeout_again :: error_data where
  "timeout_again = sent_error ''s0'' ''2025-08-01T10:00:00.000Z'' ''timeout''"

text \<open>A message in which a UUID is followed by seven hexadecimal digits and the rest of a UUID.\<close>

definition two_uuids :: string where
  "two_uuids =
     ''aaaaaaaa-aaaa-aaaa-aaaa-aaaaaaaaaaaaaaaaaaa-aaaa-aaaa-aaaa-aaaaaaaaaaaa''"

definition plain_message :: string where
  "plain_message = ''Error 42 at 2025-08-01 10:30:15''"

definition agent0 :: agent where
  "agent0 = (mergeDefaults None (Some 0))\<lparr>running := True\<rparr>"

definition agent3 :: agent where
  "agent3 = (mergeDefaults (Some 5000) (Some 3))\<lparr>running := True\<rparr>"




text \<open>
  A platform whose \<open>JSON.parse\<close> knows one line, an object with the number 5 as its
  \<open>message\<close>; the other functions are not reached on that line.
\<close>

definition number_line :: string where
  \<open>number_line = ''{"message": 5}''\<close>

definition platform0 :: platform where
  "platform0 =
     \<lparr>jsonParse = (\<lambda>l. if l = number_line then Some (JObj [(''message'', JNum 5)]) else None),
      re_match = (\<lambda>r l. None),
      re_test = (\<lambda>r v. False),
      dateIso = (\<lambda>v. None),
      pnow = ''2025-08-01T10:00:00.000Z'',
      currentYear = ''2025'',
      toStr = (\<lambda>v. [])\<rparr>"





section \<open>Proofs\<close>

subsection \<open>The store\<close>

lemma similar_fingerprint: "similar a b = (fingerprint a = fingerprint b)"
  by (auto simp: similar_def fingerprint_def)

lemma find_index_Some: "find_index P xs = Some i \<Longrightarrow> i < length xs \<and> P (xs ! i)"
  by (induction xs arbitrary: i) (auto split: if_splits)

lemma find_index_None: "find_index P xs = None \<Longrightarrow> \<forall>x\<in>set xs. \<not> P x"
  by (induction xs) (auto split: if_splits)

lemma generateInsights_frame [simp]:
  "errors (generateInsights E s) = errors s"
  "maxErrors (generateInsights E s) = maxErrors s"
  "patterns (generateInsights E s) = patterns s"
  "insights (generateInsights E s) = derive_insights E s"
  by (simp_all add: generateInsights_def)

lemma derive_insights_cong:
  "errors s = errors t \<Longrightarrow> patterns s = patterns t \<Longrightarrow> derive_insights E s = derive_insights E t"
  by (simp add: derive_insights_def)

lemma updatePatterns_frame [simp]:
  "errors (updatePatterns E r s) = errors s"
  "maxErrors (updatePatterns E r s) = maxErrors s"
  by (simp_all add: updatePatterns_def Let_def)

lemma updatePatterns_insights:
  "insights (updatePatterns E r s) = derive_insights E (updatePatterns E r s)"
  by (simp add: updatePatterns_def Let_def derive_insights_cong)

lemma addError_existing:
  assumes "findSimilarError (errors s) e = Some i"
  shows "snd (addError E e s) = s\<lparr>errors := (errors s)[i := fst (addError E e s)]\<rparr>"
    and "fst (addError E e s) =
           (errors s ! i)\<lparr>count := count (errors s ! i) + 1,
                           lastSeen := (if timestamp e = [] then nowIso E else timestamp e),
                           trend := trend (fst (addError E e s))\<rparr>"
  using assms by (simp_all add: addError_def Let_def)

lemma addError_new:
  assumes "findSimilarError (errors s) e = None"
  shows "errors (snd (addError E e s)) = take (maxErrors s) (fst (addError E e s) # errors s)"
    and "fingerprint (fst (addError E e s)) = fingerprint e"
    and "insights (snd (addError E e s)) = derive_insights E (snd (addError E e s))"
  using assms by (simp_all add: addError_def Let_def fingerprint_def updatePatterns_insights)

lemma addError_maxErrors [simp]: "maxErrors (snd (addError E e s)) = maxErrors s"
  by (simp add: addError_def Let_def split: option.splits)

lemma findSimilarError_Some:
  "findSimilarError errs e = Some i \<Longrightarrow> i < length errs \<and> similar (errs ! i) e"
  unfolding findSimilarError_def by (rule find_index_Some)

lemma take_append_take: "take n (xs @ take n ys) = take n (xs @ ys)"
  by (simp add: min_def)

lemma as_created_merge:
  "as_created (e\<lparr>count := c, lastSeen := l, trend := t\<rparr>) = as_created e"
  by (simp add: as_created_def)

lemma addError_existing_as_created:
  assumes "findSimilarError (errors s) e = Some i"
  shows "map as_created (errors (snd (addError E e s))) = map as_created (errors s)"
    and "length (errors (snd (addError E e s))) = length (errors s)"
proof -
  have i: "i < length (errors s)" using findSimilarError_Some[OF assms] by simp
  have "as_created (fst (addError E e s)) = as_created (errors s ! i)"
    by (subst addError_existing(2)[OF assms]) (rule as_created_merge)
  then show "map as_created (errors (snd (addError E e s))) = map as_created (errors s)"
    using i by (simp add: addError_existing(1)[OF assms] map_update list_update_same_conv)
  show "length (errors (snd (addError E e s))) = length (errors s)"
    by (simp add: addError_existing(1)[OF assms])
qed

lemma addErrors_created:
  "map as_created (errors (addErrors calls s)) =
     take (maxErrors s) (map as_created (created calls s @ errors s)) \<and>
   length (errors (addErrors calls s)) \<le> maxErrors s \<and>
   maxErrors (addErrors calls s) = maxErrors s"
  if "length (errors s) \<le> maxErrors s"
  using that
proof (induction calls arbitrary: s)
  case Nil
  then show ?case by simp
next
  case (Cons call rest)
  obtain E e where call: "call = (E, e)" by (cases call)
  let ?s = "snd (addError E e s)"
  show ?case
  proof (cases "findSimilarError (errors s) e")
    case None
    have errs: "errors ?s = take (maxErrors s) (fst (addError E e s) # errors s)"
      by (rule addError_new(1)[OF None])
    then have len: "length (errors ?s) \<le> maxErrors ?s" by simp
    have "take (maxErrors s) (map as_created (created rest ?s @ errors ?s)) =
          take (maxErrors s) (map as_created (created rest ?s @ fst (addError E e s) # errors s))"
      unfolding errs map_append take_map[symmetric] by (rule take_append_take)
    with Cons.IH[OF len] show ?thesis by (simp add: call None)
  next
    case (Some i)
    have len: "length (errors ?s) \<le> maxErrors ?s"
      using Cons.prems addError_existing_as_created(2)[OF Some, of E] by simp
    from Cons.IH[OF len] show ?thesis
      by (simp add: call Some addError_existing_as_created(1)[OF Some])
  qed
qed

text \<open>
  Claim C1, as amended: \<open>addError\<close> derives the insight list anew, from the store as the
  call leaves it, when it creates a record (no stored error has the fingerprint of the
  incoming one); when it merges the incoming error into an existing record, it leaves
  the insight list as it was.
\<close>

theorem rederive_only_when_created:
  "insights (snd (addError E e s)) =
     (case findSimilarError (errors s) e of
        None \<Rightarrow> derive_insights E (snd (addError E e s))
      | Some i \<Rightarrow> insights s)"
proof (cases "findSimilarError (errors s) e")
  case None
  then show ?thesis by (simp add: addError_new(3))
next
  case (Some i)
  then show ?thesis by (simp add: addError_existing(1))
qed

theorem rederive_only_when_created_witness:
  "insights (snd (addError env0 (sent_error ''s1'' [] ''disk full'') new_store)) =
     derive_insights env0 (snd (addError env0 (sent_error ''s1'' [] ''disk full'') new_store))"
  using rederive_only_when_created [of env0 "sent_error ''s1'' [] ''disk full''" new_store]
  by (simp add: findSimilarError_def new_store_def)

text \<open>
  Claim C1 as stated fails in the branch of an existing record. Eleven servers have
  reported a time-out, ten of them within the last hour; the first server reports it
  again. Its record is merged, which makes eleven recent errors, so the list derived
  from the store has the anomaly insight; the stored list has not.
\<close>

lemma timeout_merge_types:
  "findSimilarError (errors timeout_store) timeout_again = Some 10"
  "map itype (insights (snd (addError env0 timeout_again timeout_store))) =
     [''pattern'', ''recommendation'']"
  "map itype (derive_insights env0 (snd (addError env0 timeout_again timeout_store))) =
     [''pattern'', ''anomaly'', ''recommendation'']"
  by code_simp+

theorem merge_leaves_insights_stale:
  "findSimilarError (errors timeout_store) timeout_again = Some 10 \<and>
   insights (snd (addError env0 timeout_again timeout_store)) \<noteq>
   derive_insights env0 (snd (addError env0 timeout_again timeout_store))"
proof -
  have "map itype (insights (snd (addError env0 timeout_again timeout_store))) \<noteq>
        map itype (derive_insights env0 (snd (addError env0 timeout_again timeout_store)))"
    unfolding timeout_merge_types by simp
  then show ?thesis using timeout_merge_types(1) by auto
qed

text \<open>
  Claim C3: after any finite sequence of \<open>addError\<close> calls on an empty store, no two
  stored errors have the same fingerprint (server, log file, normalised message).
\<close>

theorem fingerprint_unique:
  "distinct (map fingerprint (errors (addErrors calls new_store)))"
proof -
  have "distinct (map fingerprint (errors s)) \<Longrightarrow>
        distinct (map fingerprint (errors (addErrors calls s)))" for s
  proof (induction calls arbitrary: s)
    case Nil
    then show ?case by simp
  next
    case (Cons call rest)
    obtain E e where call: "call = (E, e)" by (cases call)
    have "distinct (map fingerprint (errors (snd (addError E e s))))"
    proof (cases "findSimilarError (errors s) e")
      case None
      then have "\<forall>x\<in>set (errors s). fingerprint x \<noteq> fingerprint e"
        using find_index_None[of "\<lambda>x. similar x e" "errors s"]
        by (simp add: findSimilarError_def similar_fingerprint)
      then have "distinct (map fingerprint (fst (addError E e s) # errors s))"
        using Cons.prems addError_new(2)[OF None, of E] by auto
      then have "distinct (take (maxErrors s) (map fingerprint (fst (addError E e s) # errors s)))"
        by (rule distinct_take)
      then have "distinct (map fingerprint (take (maxErrors s) (fst (addError E e s) # errors s)))"
        by (simp only: take_map)
      then show ?thesis by (simp only: addError_new(1)[OF None, of E])
    next
      case (Some i)
      have i: "i < length (errors s)" using findSimilarError_Some[OF Some] by simp
      have fp: "fingerprint (fst (addError E e s)) = fingerprint (errors s ! i)"
        by (subst addError_existing(2)[OF Some]) (simp add: fingerprint_def)
      have "map fingerprint ((errors s)[i := fst (addError E e s)]) = map fingerprint (errors s)"
        using i fp by (simp add: map_update list_update_same_conv)
      then show ?thesis using Cons.prems by (simp add: addError_existing(1)[OF Some])
    qed
    then show ?case using Cons.IH by (simp add: call)
  qed
  then show ?thesis by (simp add: new_store_def)
qed

theorem fingerprint_unique_witness:
  "distinct (map fingerprint (errors (addErrors timeout_calls new_store)))"
  using fingerprint_unique [of timeout_calls] by simp

text \<open>
  Claim C4: after any sequence of \<open>addError\<close> calls on a new store, the list of stored
  errors has at most \<open>maxErrors\<close> = 1000 entries, and they are the records created
  last, the latest first (up to the three fields that merges rewrite): what has been
  discarded are the records created earliest.
\<close>

theorem store_bounded_keeps_latest:
  "length (errors (addErrors calls new_store)) \<le> 1000 \<and>
   maxErrors (addErrors calls new_store) = 1000 \<and>
   map as_created (errors (addErrors calls new_store)) =
     take 1000 (map as_created (created calls new_store))"
  using addErrors_created [of new_store calls] by (simp add: new_store_def)

theorem store_bounded_keeps_latest_witness:
  "length (errors (addErrors timeout_calls new_store)) \<le> 1000 \<and>
   maxErrors (addErrors timeout_calls new_store) = 1000 \<and>
   map as_created (errors (addErrors timeout_calls new_store)) =
     take 1000 (map as_created (created timeout_calls new_store))"
  using store_bounded_keeps_latest [of timeout_calls] by simp

text \<open>
  Claim C10: when \<open>addError\<close> finds a stored error with the fingerprint of the incoming
  one, at position \<open>i\<close>, the record at \<open>i\<close> after the call is the record before the
  call with new \<open>count\<close>, \<open>lastSeen\<close> and \<open>trend\<close> and every other field as it was (its
  id, \<open>firstSeen\<close>, \<open>timestamp\<close>, \<open>errorMessage\<close>, \<open>category\<close>, \<open>severity\<close>, \<open>serverId\<close>,
  \<open>logFile\<close>, \<open>urgency\<close> and \<open>semantics\<close> among them); the list has the same length and
  the same records at all other positions.
\<close>

theorem merge_changes_three_fields:
  assumes "findSimilarError (errors s) e = Some i"
  shows "i < length (errors s) \<and>
         fingerprint (errors s ! i) = fingerprint e \<and>
         fst (addError E e s) = errors (snd (addError E e s)) ! i \<and>
         errors (snd (addError E e s)) ! i =
           (errors s ! i)\<lparr>count := count (errors s ! i) + 1,
                           lastSeen := (if timestamp e = [] then nowIso E else timestamp e),
                           trend := trend (errors (snd (addError E e s)) ! i)\<rparr> \<and>
         error_id (errors (snd (addError E e s)) ! i) = error_id (errors s ! i) \<and>
         firstSeen (errors (snd (addError E e s)) ! i) = firstSeen (errors s ! i) \<and>
         timestamp (errors (snd (addError E e s)) ! i) = timestamp (errors s ! i) \<and>
         errorMessage (errors (snd (addError E e s)) ! i) = errorMessage (errors s ! i) \<and>
         category (errors (snd (addError E e s)) ! i) = category (errors s ! i) \<and>
         severity (errors (snd (addError E e s)) ! i) = severity (errors s ! i) \<and>
         serverId (errors (snd (addError E e s)) ! i) = serverId (errors s ! i) \<and>
         logFile (errors (snd (addError E e s)) ! i) = logFile (errors s ! i) \<and>
         urgency (errors (snd (addError E e s)) ! i) = urgency (errors s ! i) \<and>
         semantics (errors (snd (addError E e s)) ! i) = semantics (errors s ! i) \<and>
         length (errors (snd (addError E e s))) = length (errors s) \<and>
         (\<forall>j < length (errors s). j \<noteq> i \<longrightarrow>
            errors (snd (addError E e s)) ! j = errors s ! j)"
proof -
  have i: "i < length (errors s)" and sim: "similar (errors s ! i) e"
    using findSimilarError_Some[OF assms] by simp_all
  have nth: "errors (snd (addError E e s)) ! i = fst (addError E e s)"
    using i by (simp add: addError_existing(1)[OF assms])
  have upd: "fst (addError E e s) =
           (errors s ! i)\<lparr>count := count (errors s ! i) + 1,
                           lastSeen := (if timestamp e = [] then nowIso E else timestamp e),
                           trend := trend (fst (addError E e s))\<rparr>"
    by (rule addError_existing(2)[OF assms])
  have fields: "error_id (fst (addError E e s)) = error_id (errors s ! i)"
    "firstSeen (fst (addError E e s)) = firstSeen (errors s ! i)"
    "timestamp (fst (addError E e s)) = timestamp (errors s ! i)"
    "errorMessage (fst (addError E e s)) = errorMessage (errors s ! i)"
    "category (fst (addError E e s)) = category (errors s ! i)"
    "severity (fst (addError E e s)) = severity (errors s ! i)"
    "serverId (fst (addError E e s)) = serverId (errors s ! i)"
    "logFile (fst (addError E e s)) = logFile (errors s ! i)"
    "urgency (fst (addError E e s)) = urgency (errors s ! i)"
    "semantics (fst (addError E e s)) = semantics (errors s ! i)"
    by (subst upd, simp)+
  have others: "\<forall>j < length (errors s). j \<noteq> i \<longrightarrow>
            errors (snd (addError E e s)) ! j = errors s ! j"
    by (simp add: addError_existing(1)[OF assms])
  have len: "length (errors (snd (addError E e s))) = length (errors s)"
    by (simp add: addError_existing(1)[OF assms])
  show ?thesis
    using i sim upd fields others len unfolding nth similar_fingerprint by simp
qed

lemma disk_again_found:
  "findSimilarError (errors disk_store) (sent_error ''s1'' [] ''disk full again'') = None"
  "findSimilarError (errors disk_store) (sent_error ''s1'' [] ''Disk FULL '') = Some 0"
  by code_simp+

theorem merge_changes_three_fields_witness:
  "findSimilarError (errors disk_store) (sent_error ''s1'' [] ''Disk FULL '') = Some 0 \<and>
   length (errors (snd (addError env0 (sent_error ''s1'' [] ''Disk FULL '') disk_store))) =
     length (errors disk_store) \<and>
   errorMessage (errors (snd (addError env0 (sent_error ''s1'' [] ''Disk FULL '') disk_store)) ! 0) =
     errorMessage (errors disk_store ! 0)"
  using disk_again_found(2) merge_changes_three_fields [OF disk_again_found(2), of env0]
  by simp

text \<open>
  Claim C7 fails on the code: the text search reads the property \<open>server\<close>, which the
  errors sent by the agent do not have (they have \<open>serverName\<close>). With one stored error
  from the server named \<open>web\<close>, whose message is \<open>disk full\<close>, the search for \<open>web\<close>
  matches no cue and throws a \<open>TypeError\<close> where the claim has it return the error.
\<close>

theorem search_server_name_throws:
  "search disk_store ''web'' = Inl TypeError"
  by code_simp

subsection \<open>Reconnection\<close>

lemma on_close_frame:
  "running (fst (on_close a)) = running a"
  "reconnectDelay (fst (on_close a)) = reconnectDelay a"
  "maxReconnectAttempts (fst (on_close a)) = maxReconnectAttempts a"
  by (simp_all add: on_close_def scheduleReconnect_def Let_def)

lemma closes_frame:
  "running (fst (closes n a)) = running a \<and>
   reconnectDelay (fst (closes n a)) = reconnectDelay a \<and>
   maxReconnectAttempts (fst (closes n a)) = maxReconnectAttempts a"
  by (induction n) (simp_all add: on_close_frame)

lemma closes_attempts:
  "running a \<Longrightarrow> reconnectAttempts a = 0 \<Longrightarrow>
   reconnectAttempts (fst (closes n a)) =
     (if 0 < maxReconnectAttempts a \<and> int n > maxReconnectAttempts a
      then nat (maxReconnectAttempts a) else n)"
proof (induction n)
  case 0
  then show ?case by simp
next
  case (Suc n)
  then show ?case
    using closes_frame[of n a]
    by (auto simp: on_close_def scheduleReconnect_def Let_def)
qed

text \<open>
  Claim C6, as amended: while the agent is running, the \<open>n\<close>-th close in a row after an
  open schedules a reconnect after min(\<open>reconnectDelay\<close> * 2^(n - 1), 60000) ms, for a
  positive \<open>reconnectDelay\<close> (for which the product is the same in floating point); the
  open sets the attempt counter to 0; and for every positive \<open>maxReconnectAttempts\<close>
  no reconnect is scheduled once the counter has reached it. A maximum of 0, like a
  negative one, sets no limit.
\<close>

theorem reconnect_backoff:
  assumes "running a" and "0 < n" and "0 < reconnectDelay a"
  shows "reconnectAttempts (on_open a) = 0 \<and>
         snd (closes n (on_open a)) =
           (if 0 < maxReconnectAttempts a \<and> int n > maxReconnectAttempts a then None
            else Some (min (reconnectDelay a * 2 ^ (n - 1)) 60000))"
proof -
  obtain k where n: "n = Suc k" using assms(2) by (cases n) auto
  let ?b = "on_open a"
  have b: "running ?b" "reconnectAttempts ?b = 0"
    "maxReconnectAttempts ?b = maxReconnectAttempts a"
    "reconnectDelay ?b = reconnectDelay a"
    using assms(1) by (simp_all add: on_open_def)
  have att: "reconnectAttempts (fst (closes k ?b)) =
     (if 0 < maxReconnectAttempts a \<and> int k > maxReconnectAttempts a
      then nat (maxReconnectAttempts a) else k)"
    using closes_attempts[OF b(1) b(2), of k] b(3) by simp
  have "snd (closes n (on_open a)) =
           (if 0 < maxReconnectAttempts a \<and> int n > maxReconnectAttempts a then None
            else Some (min (reconnectDelay a * 2 ^ (n - 1)) 60000))"
    using closes_frame[of k ?b] b att n
    by (auto simp: on_close_def scheduleReconnect_def Let_def)
  then show ?thesis using b(2) by simp
qed

theorem reconnect_backoff_witness:
  "running agent3 \<and> (0::nat) < 2 \<and> 0 < reconnectDelay agent3 \<and>
   reconnectAttempts (on_open agent3) = 0 \<and>
   snd (closes 2 (on_open agent3)) = Some 10000"
proof -
  have r: "running agent3" by (simp add: agent3_def)
  have n: "(0::nat) < 2" by simp
  have d: "0 < reconnectDelay agent3" by (simp add: agent3_def mergeDefaults_def)
  show ?thesis
    using r d reconnect_backoff [OF r n d] by (simp add: agent3_def mergeDefaults_def)
qed

text \<open>
  Claim C6 as stated fails for the maximum 0: the agent is running, its attempt counter
  0 has reached the maximum 0, and the close still schedules a reconnect.
\<close>

theorem reconnect_despite_maximum_zero:
  "running agent0 \<and> maxReconnectAttempts agent0 = 0 \<and>
   int (reconnectAttempts agent0) \<ge> maxReconnectAttempts agent0 \<and>
   snd (on_close agent0) = Some 5000"
  by (simp add: agent0_def mergeDefaults_def on_close_def scheduleReconnect_def)

subsection \<open>The tailer\<close>








subsection \<open>The parser\<close>

text \<open>
  Claim C2 fails on the code: for the line \<open>{"message": 5}\<close> of a log file of type
  \<open>json\<close>, \<open>parseJSON\<close> returns an event whose message is the number 5, and
  \<open>extractSemantics\<close> throws a \<open>TypeError\<close> on it, which \<open>parse\<close> does not catch.
\<close>

theorem parse_throws_on_number_message:
  "parse platform0 number_line ''json'' = Inl TypeError"
  by code_simp

subsection \<open>The agent records\<close>














subsection \<open>Normalisation: characters\<close>

lemma lower_char_table:
  "map lower_char ''ABCDEFGHIJKLMNOPQRSTUVWXYZ'' = ''abcdefghijklmnopqrstuvwxyz''"
  "map lower_char latin1_capitals = latin1_smalls"
  by code_simp+

lemma lower_char_upper: "is_upper c \<Longrightarrow> is_lower (lower_char c)"
proof -
  assume "is_upper c"
  then have "c \<in> set ''ABCDEFGHIJKLMNOPQRSTUVWXYZ''" by (simp only: is_upper_def)
  then have "lower_char c \<in> set (map lower_char ''ABCDEFGHIJKLMNOPQRSTUVWXYZ'')"
    by (simp only: set_map) (rule imageI)
  then show ?thesis by (simp only: lower_char_table is_lower_def)
qed

lemma lower_char_capital: "c \<in> set latin1_capitals \<Longrightarrow> lower_char c \<in> set latin1_smalls"
proof -
  assume "c \<in> set latin1_capitals"
  then have "lower_char c \<in> set (map lower_char latin1_capitals)"
    by (simp only: set_map) (rule imageI)
  then show ?thesis by (simp only: lower_char_table)
qed

lemma lower_char_other:
  "\<not> is_upper c \<Longrightarrow> c \<notin> set latin1_capitals \<Longrightarrow> lower_char c = c"
  by (simp add: lower_char_def)

lemma lower_not_upper: "is_lower c \<or> c \<in> set latin1_smalls \<Longrightarrow> \<not> is_upper c"
  by (auto simp: is_lower_def is_upper_def latin1_smalls_def)

lemma small_not_capital:
  "is_lower c \<or> c \<in> set latin1_smalls \<Longrightarrow> c \<notin> set latin1_capitals"
  by (auto simp: is_lower_def latin1_smalls_def latin1_capitals_def)

lemma letter_not_digit:
  "is_lower c \<or> is_upper c \<or> c \<in> set latin1_smalls \<or> c \<in> set latin1_capitals \<Longrightarrow>
   \<not> is_digit c"
  by (auto simp: is_lower_def is_upper_def is_digit_def latin1_smalls_def latin1_capitals_def)

lemma letter_not_space:
  "is_lower c \<or> is_upper c \<or> c \<in> set latin1_smalls \<or> c \<in> set latin1_capitals \<Longrightarrow>
   \<not> is_space c"
  by (auto simp: is_lower_def is_upper_def is_space_def latin1_smalls_def latin1_capitals_def)

lemma letter_not_mark:
  "is_lower c \<or> is_upper c \<or> c \<in> set latin1_smalls \<or> c \<in> set latin1_capitals \<Longrightarrow>
   c \<noteq> CHR ''-'' \<and> c \<noteq> CHR '':'' \<and> c \<noteq> CHR ''_''"
  by (auto simp: is_lower_def is_upper_def latin1_smalls_def latin1_capitals_def)

lemma latin1_not_word:
  "c \<in> set latin1_smalls \<or> c \<in> set latin1_capitals \<Longrightarrow> \<not> is_word c"
  by (auto simp: is_word_def is_lower_def is_upper_def is_digit_def
        latin1_smalls_def latin1_capitals_def)

lemma lower_not_T: "is_lower c \<or> c \<in> set latin1_smalls \<Longrightarrow> c \<noteq> CHR ''T''"
  by (auto simp: is_lower_def latin1_smalls_def)

lemma T_upper: "is_upper CHR ''T''"
  by (simp add: is_upper_def)

lemma lower_char_cases:
  obtains (upper) "is_upper c" "is_lower (lower_char c)"
  | (capital) "c \<in> set latin1_capitals" "lower_char c \<in> set latin1_smalls"
  | (other) "\<not> is_upper c" "c \<notin> set latin1_capitals" "lower_char c = c"
  using lower_char_upper lower_char_capital lower_char_other by blast

lemma lower_char_digit [simp]: "is_digit (lower_char c) = is_digit c"
proof (cases c rule: lower_char_cases)
  case upper
  then show ?thesis using letter_not_digit by blast
next
  case capital
  then show ?thesis using letter_not_digit by blast
next
  case other
  then show ?thesis by simp
qed

lemma lower_char_space [simp]: "is_space (lower_char c) = is_space c"
proof (cases c rule: lower_char_cases)
  case upper
  then show ?thesis using letter_not_space by blast
next
  case capital
  then show ?thesis using letter_not_space by blast
next
  case other
  then show ?thesis by simp
qed

lemma lower_char_word [simp]: "is_word (lower_char c) = is_word c"
proof (cases c rule: lower_char_cases)
  case upper
  then show ?thesis by (simp add: is_word_def)
next
  case capital
  then show ?thesis using latin1_not_word by blast
next
  case other
  then show ?thesis by simp
qed

lemma lower_char_idem [simp]: "lower_char (lower_char c) = lower_char c"
proof (cases c rule: lower_char_cases)
  case upper
  then show ?thesis using lower_not_upper small_not_capital lower_char_other by blast
next
  case capital
  then show ?thesis using lower_not_upper small_not_capital lower_char_other by blast
next
  case other
  then show ?thesis by simp
qed

lemma lower_char_lit:
  "lower_char c = CHR ''-'' \<Longrightarrow> c = CHR ''-''"
  "lower_char c = CHR '':'' \<Longrightarrow> c = CHR '':''"
  "lower_char c \<noteq> CHR ''T''"
proof -
  show "lower_char c = CHR ''-'' \<Longrightarrow> c = CHR ''-''"
    using letter_not_mark [of "lower_char c"] by (cases c rule: lower_char_cases) auto
  show "lower_char c = CHR '':'' \<Longrightarrow> c = CHR '':''"
    using letter_not_mark [of "lower_char c"] by (cases c rule: lower_char_cases) auto
  show "lower_char c \<noteq> CHR ''T''"
  proof (cases c rule: lower_char_cases)
    case upper
    then show ?thesis using lower_not_T by blast
  next
    case capital
    then show ?thesis using lower_not_T by blast
  next
    case other
    then show ?thesis using T_upper by auto
  qed
qed

lemma space_not_word: "is_space c \<Longrightarrow> \<not> is_word c"
  using letter_not_space [of c] by (auto simp: is_word_def is_space_def is_digit_def)

lemma digit_word: "is_digit c \<Longrightarrow> is_word c"
  by (simp add: is_word_def)

lemma hex_word: "is_hex c \<Longrightarrow> is_word c"
  by (auto simp: is_hex_def is_word_def is_upper_def is_lower_def)

subsection \<open>Replacement and occurrences\<close>

lemma gsub_id: "\<not> has_match m pw s \<Longrightarrow> gsub m tok pw s = s"
  by (induction s arbitrary: pw) auto

lemma fits_append_pfit: "fits ks (t @ r) \<Longrightarrow> pfit ks t"
  by (induction ks t rule: pfit.induct) auto

lemma fits_append: "fits ks s \<Longrightarrow> fits ks (s @ r)"
  by (induction ks s rule: fits.induct) auto

lemma occurs_drop: "occurs ks (drop n s) \<Longrightarrow> occurs ks s"
proof (induction s arbitrary: n)
  case Nil
  then show ?case by simp
next
  case (Cons c cs)
  then show ?case by (cases n) auto
qed

lemma occurs_append_right: "ks \<noteq> [] \<Longrightarrow> occurs ks s \<Longrightarrow> occurs ks (s @ r)"
proof (induction s)
  case Nil
  then show ?case by (cases ks) auto
next
  case (Cons c cs)
  from Cons.prems(2) have "fits ks (c # cs) \<or> occurs ks cs" by simp
  then show ?case
  proof
    assume "fits ks (c # cs)"
    then have "fits ks ((c # cs) @ r)" by (rule fits_append)
    then show ?thesis by simp
  next
    assume "occurs ks cs"
    then have "occurs ks (cs @ r)" by (rule Cons.IH [OF Cons.prems(1)])
    then show ?thesis by simp
  qed
qed

lemma occurs_append_left: "occurs ks s \<Longrightarrow> occurs ks (p @ s)"
  using occurs_drop [of ks "length p" "p @ s"] by simp

lemma occurs_token: "no_fit_into ks t \<Longrightarrow> occurs ks (t @ r) \<Longrightarrow> occurs ks r"
proof (induction t)
  case Nil
  then show ?case by simp
next
  case (Cons x xs)
  from Cons.prems(1) have nf: "\<not> pfit ks (x # xs)" and rest: "no_fit_into ks xs" by simp_all
  from Cons.prems(2) have "fits ks ((x # xs) @ r) \<or> occurs ks (xs @ r)" by simp
  then show ?case
  proof
    assume "fits ks ((x # xs) @ r)"
    then have "pfit ks (x # xs)" by (rule fits_append_pfit)
    with nf show ?thesis by simp
  next
    assume "occurs ks (xs @ r)"
    then show ?thesis by (rule Cons.IH [OF rest])
  qed
qed

lemma fits_gsub:
  "no_fit_from ks tok \<Longrightarrow> fits ks (gsub m tok pw s) \<Longrightarrow> fits ks s"
proof (induction m tok pw s arbitrary: ks rule: gsub.induct)
  case (1 m tok pw)
  then show ?case by simp
next
  case (2 m tok pw c cs)
  show ?case
  proof (cases ks)
    case Nil
    then show ?thesis by simp
  next
    case (Cons k ks')
    show ?thesis
    proof (cases "m pw (c # cs)")
      case None
      from "2.prems" Cons None have "cls_ok k c" "fits ks' (gsub m tok (is_word c) cs)"
        "no_fit_from ks' tok" by simp_all
      with "2.IH"(1)[OF None] Cons show ?thesis by simp
    next
      case (Some n)
      with "2.prems"(2)
      have "fits ks (tok @ gsub m tok (is_word (last (c # take (n - 1) cs))) (drop (n - 1) cs))"
        by simp
      then have "pfit ks tok" by (rule fits_append_pfit)
      with "2.prems"(1) Cons show ?thesis by simp
    qed
  qed
qed

lemma fits_cons_gsub:
  "no_fit_from ks tok \<Longrightarrow> fits ks (c # gsub m tok pw s) \<Longrightarrow> fits ks (c # s)"
  using fits_gsub [of "tl ks" tok m pw s] by (cases ks) auto

lemma occurs_gsub:
  "ks \<noteq> [] \<Longrightarrow> no_fit_from ks tok \<Longrightarrow> no_fit_into ks tok \<Longrightarrow>
   occurs ks (gsub m tok pw s) \<Longrightarrow> occurs ks s"
proof (induction m tok pw s rule: gsub.induct)
  case (1 m tok pw)
  then show ?case by simp
next
  case (2 m tok pw c cs)
  show ?case
  proof (cases "m pw (c # cs)")
    case None
    with "2.prems"(4)
    have "fits ks (c # gsub m tok (is_word c) cs) \<or> occurs ks (gsub m tok (is_word c) cs)"
      by simp
    then show ?thesis
      using fits_cons_gsub [OF "2.prems"(2)] "2.IH"(1)[OF None "2.prems"(1,2,3)] by auto
  next
    case (Some n)
    with "2.prems"(4)
    have "occurs ks (tok @ gsub m tok (is_word (last (c # take (n - 1) cs))) (drop (n - 1) cs))"
      by simp
    then have "occurs ks (gsub m tok (is_word (last (c # take (n - 1) cs))) (drop (n - 1) cs))"
      by (rule occurs_token [OF "2.prems"(3)])
    then have "occurs ks (drop (n - 1) cs)"
      by (rule "2.IH"(2)[OF Some "2.prems"(1,2,3)])
    then show ?thesis using occurs_drop by auto
  qed
qed

subsection \<open>Time stamps\<close>

lemma ts_core_tokens:
  "no_fit_from ts_core ''TIMESTAMP''" "no_fit_into ts_core ''TIMESTAMP''"
  "no_fit_from ts_core ''NUMBER''" "no_fit_into ts_core ''NUMBER''"
  "no_fit_from ts_core ''UUID''" "no_fit_into ts_core ''UUID''"
  by (simp_all add: ts_core_def is_digit_def is_space_def)

lemma match_timestamp_None: "(match_timestamp pw s = None) = (\<not> fits ts_core s)"
  by (simp add: match_timestamp_def Let_def)

lemma no_core_no_match: "\<not> occurs ts_core s \<Longrightarrow> \<not> has_match match_timestamp pw s"
  by (induction s arbitrary: pw) (auto simp: match_timestamp_None)

lemma gsub_timestamp_no_core:
  "\<not> occurs ts_core (gsub match_timestamp ''TIMESTAMP'' pw s)"
proof (induction match_timestamp "''TIMESTAMP''" pw s rule: gsub.induct)
  case (1 pw)
  then show ?case by (simp add: ts_core_def)
next
  case (2 pw c cs)
  show ?case
  proof (cases "match_timestamp pw (c # cs)")
    case None
    then have "\<not> fits ts_core (c # cs)" by (simp add: match_timestamp_None)
    then have "\<not> fits ts_core (c # gsub match_timestamp ''TIMESTAMP'' (is_word c) cs)"
      using fits_cons_gsub [OF ts_core_tokens(1)] by blast
    then show ?thesis using "2.hyps"(1)[OF None] None by simp
  next
    case (Some n)
    have eq: "gsub match_timestamp ''TIMESTAMP'' pw (c # cs) =
              ''TIMESTAMP'' @ gsub match_timestamp ''TIMESTAMP''
                 (is_word (last (c # take (n - 1) cs))) (drop (n - 1) cs)"
      using Some by simp
    show ?thesis
      unfolding eq using "2.hyps"(2)[OF Some] occurs_token [OF ts_core_tokens(2)] by blast
  qed
qed

lemma fits_core_lower: "fits ts_core (map lower_char s) \<Longrightarrow> fits ts_core s"
proof -
  have ok: "cls_ok k (lower_char c) \<Longrightarrow> k \<in> set ts_core \<Longrightarrow> cls_ok k c" for k c
    by (cases k) (auto simp: ts_core_def lower_char_lit)
  have "fits ks (map lower_char s) \<Longrightarrow> set ks \<subseteq> set ts_core \<Longrightarrow> fits ks s" for ks
    by (induction ks s rule: fits.induct) (auto simp: ok)
  then show "fits ts_core (map lower_char s) \<Longrightarrow> fits ts_core s" by simp
qed

lemma occurs_core_lower: "occurs ts_core (toLowerCase s) \<Longrightarrow> occurs ts_core s"
  unfolding toLowerCase_def
proof (induction s)
  case Nil
  then show ?case by simp
next
  case (Cons c cs)
  from Cons.prems
  have "fits ts_core (map lower_char (c # cs)) \<or> occurs ts_core (map lower_char cs)"
    by simp
  then show ?case
  proof
    assume "fits ts_core (map lower_char (c # cs))"
    then have "fits ts_core (c # cs)" by (rule fits_core_lower)
    then show ?thesis by simp
  next
    assume "occurs ts_core (map lower_char cs)"
    then have "occurs ts_core cs" by (rule Cons.IH)
    then show ?thesis by simp
  qed
qed

lemma trim_inside: "\<exists>p r. s = p @ trim s @ r"
proof -
  have "dropWhile is_space s =
          rev (dropWhile is_space (rev (dropWhile is_space s))) @
          rev (takeWhile is_space (rev (dropWhile is_space s)))"
    by (metis rev_append rev_rev_ident takeWhile_dropWhile_id)
  then have "s = takeWhile is_space s @ trim s @
                 rev (takeWhile is_space (rev (dropWhile is_space s)))"
    unfolding trim_def by (metis takeWhile_dropWhile_id)
  then show ?thesis by blast
qed

lemma occurs_trim: "ks \<noteq> [] \<Longrightarrow> occurs ks (trim s) \<Longrightarrow> occurs ks s"
proof -
  assume ks: "ks \<noteq> []" and occ: "occurs ks (trim s)"
  obtain p r where s: "s = p @ trim s @ r" using trim_inside by blast
  have "occurs ks (p @ trim s @ r)"
    using occurs_append_left occurs_append_right [OF ks occ] by blast
  with s show ?thesis by simp
qed

lemma ts_core_nonempty: "ts_core \<noteq> []"
  by (simp add: ts_core_def)

lemma normalize_no_core: "\<not> occurs ts_core (normalizeMessage m)"
proof
  assume "occurs ts_core (normalizeMessage m)"
  then have "occurs ts_core (toLowerCase (gsub match_uuid ''UUID'' False
         (gsub match_number ''NUMBER'' False
           (gsub match_timestamp ''TIMESTAMP'' False m))))"
    unfolding normalizeMessage_def by (rule occurs_trim [OF ts_core_nonempty])
  then have "occurs ts_core (gsub match_uuid ''UUID'' False
         (gsub match_number ''NUMBER'' False
           (gsub match_timestamp ''TIMESTAMP'' False m)))"
    by (rule occurs_core_lower)
  then have "occurs ts_core (gsub match_number ''NUMBER'' False
           (gsub match_timestamp ''TIMESTAMP'' False m))"
    by (rule occurs_gsub [OF ts_core_nonempty ts_core_tokens(5,6)])
  then have "occurs ts_core (gsub match_timestamp ''TIMESTAMP'' False m)"
    by (rule occurs_gsub [OF ts_core_nonempty ts_core_tokens(3,4)])
  then show False using gsub_timestamp_no_core by blast
qed

subsection \<open>Numbers\<close>

lemma num_tail_digits: "num_tail s = Some k \<Longrightarrow> \<forall>x\<in>set (take k s). is_digit x"
proof (induction s arbitrary: k)
  case Nil
  then show ?case by simp
next
  case (Cons c cs)
  show ?case
  proof (cases "is_digit c")
    case True
    with Cons.prems obtain j where j: "num_tail cs = Some j" "k = Suc j" by auto
    with Cons.IH [OF j(1)] True show ?thesis by simp
  next
    case False
    with Cons.prems have "k = 0" by (simp split: if_splits)
    then show ?thesis by simp
  qed
qed

lemma match_number_last:
  assumes "match_number pw (c # cs) = Some n"
  shows "is_word (last (c # take (n - 1) cs))"
proof -
  from assms have c: "is_digit c" and t: "num_tail cs = Some (n - 1)"
    by (auto split: if_splits)
  have "last (c # take (n - 1) cs) \<in> set (c # take (n - 1) cs)" by (rule last_in_set) simp
  then have "is_digit (last (c # take (n - 1) cs))"
    using c num_tail_digits [OF t] by auto
  then show ?thesis by (rule digit_word)
qed

lemma num_tail_gsub_number:
  "num_tail (gsub match_number tok True s) = num_tail s"
proof (induction s)
  case Nil
  then show ?case by simp
next
  case (Cons c cs)
  then show ?case by (cases "is_digit c") (simp_all add: digit_word)
qed

lemma has_match_number_token:
  "\<forall>x\<in>set tok. \<not> is_digit x \<Longrightarrow> tok \<noteq> [] \<Longrightarrow>
   has_match match_number pw (tok @ r) = has_match match_number (is_word (last tok)) r"
proof (induction tok arbitrary: pw)
  case Nil
  then show ?case by simp
next
  case (Cons x xs)
  then show ?case by (cases xs) simp_all
qed

lemma gsub_number_no_match:
  "\<not> has_match match_number pw (gsub match_number ''NUMBER'' pw s)"
proof (induction match_number "''NUMBER''" pw s rule: gsub.induct)
  case (1 pw)
  then show ?case by simp
next
  case (2 pw c cs)
  show ?case
  proof (cases "match_number pw (c # cs)")
    case None
    have "match_number pw (c # gsub match_number ''NUMBER'' (is_word c) cs) = None"
      using None by (auto simp: digit_word num_tail_gsub_number)
    then show ?thesis using "2.hyps"(1)[OF None] None by simp
  next
    case (Some n)
    have eq: "gsub match_number ''NUMBER'' pw (c # cs) =
              ''NUMBER'' @ gsub match_number ''NUMBER'' True (drop (n - 1) cs)"
      using Some match_number_last [OF Some] by simp
    have "\<not> has_match match_number True (gsub match_number ''NUMBER'' True (drop (n - 1) cs))"
      using "2.hyps"(2)[OF Some] match_number_last [OF Some] by simp
    then show ?thesis
      unfolding eq
      by (subst has_match_number_token) (simp_all add: is_digit_def is_word_def is_upper_def)
  qed
qed

lemma has_match_drop:
  "\<not> has_match m pw (c # cs) \<Longrightarrow>
   \<not> has_match m (is_word (last (c # take k cs))) (drop k cs)"
proof (induction k arbitrary: pw c cs)
  case 0
  then show ?case by simp
next
  case (Suc k)
  show ?case
  proof (cases cs)
    case Nil
    then show ?thesis by simp
  next
    case (Cons d ds)
    with Suc.prems have "\<not> has_match m (is_word c) (d # ds)" by simp
    from Suc.IH [OF this] Cons show ?thesis by simp
  qed
qed

lemma fits_nth: "fits ks s \<Longrightarrow> i < length ks \<Longrightarrow> i < length s \<and> cls_ok (ks ! i) (s ! i)"
proof (induction ks s arbitrary: i rule: fits.induct)
  case (1 s)
  then show ?case by simp
next
  case (2 k ks)
  then show ?case by simp
next
  case (3 k ks c cs)
  then show ?case by (cases i) auto
qed

lemma uuid_shape_last: "length uuid_shape = 36" "uuid_shape ! 35 = H"
  by (simp_all add: uuid_shape_def nth_append)

lemma match_uuid_last:
  assumes "match_uuid pw (c # cs) = Some n"
  shows "n = 36" and "is_word (last (c # take (n - 1) cs))"
proof -
  from assms have f: "fits uuid_shape (c # cs)" and n: "n = 36"
    by (auto simp: match_uuid_def split: if_splits)
  show "n = 36" by (rule n)
  from fits_nth [OF f, of 35] have len: "35 < length (c # cs)" and h: "is_hex ((c # cs) ! 35)"
    by (simp_all add: uuid_shape_last)
  have l35: "length (take 35 cs) = 35" using len by simp
  have "last (c # take 35 cs) = (c # take 35 cs) ! (length (c # take 35 cs) - 1)"
    by (rule last_conv_nth) simp
  also have "\<dots> = (c # take 35 cs) ! 35" by (simp only: length_Cons l35 diff_Suc_1)
  also have "\<dots> = (c # cs) ! 35" by (simp add: nth_Cons')
  finally show "is_word (last (c # take (n - 1) cs))" using h n by (simp add: hex_word)
qed

lemma num_tail_gsub_uuid:
  "num_tail (gsub match_uuid ''UUID'' True s) = Some k \<Longrightarrow> num_tail s = Some k"
proof (induction s arbitrary: k)
  case Nil
  then show ?case by simp
next
  case (Cons c cs)
  show ?case
  proof (cases "match_uuid True (c # cs)")
    case None
    show ?thesis
    proof (cases "is_digit c")
      case True
      with Cons.prems None obtain j where
        j: "num_tail (gsub match_uuid ''UUID'' True cs) = Some j" "k = Suc j"
        by (auto simp: digit_word)
      from Cons.IH [OF j(1)] j(2) True show ?thesis by simp
    next
      case False
      with Cons.prems None show ?thesis by (simp split: if_splits)
    qed
  next
    case (Some n)
    with Cons.prems show ?thesis
      by (simp add: is_digit_def is_word_def is_upper_def)
  qed
qed

lemma gsub_uuid_keeps_no_number:
  "\<not> has_match match_number pw s \<Longrightarrow>
   \<not> has_match match_number pw (gsub match_uuid ''UUID'' pw s)"
proof (induction match_uuid "''UUID''" pw s rule: gsub.induct)
  case (1 pw)
  then show ?case by simp
next
  case (2 pw c cs)
  show ?case
  proof (cases "match_uuid pw (c # cs)")
    case None
    from "2.prems" have here: "match_number pw (c # cs) = None"
      and rest: "\<not> has_match match_number (is_word c) cs" by simp_all
    have "match_number pw (c # gsub match_uuid ''UUID'' (is_word c) cs) = None"
    proof (cases "\<not> pw \<and> is_digit c")
      case True
      with here have "num_tail cs = None" by simp
      then have "num_tail (gsub match_uuid ''UUID'' True cs) = None"
        using num_tail_gsub_uuid [of cs] by (cases "num_tail (gsub match_uuid ''UUID'' True cs)") auto
      with True show ?thesis by (simp add: digit_word)
    next
      case False
      then show ?thesis by auto
    qed
    then show ?thesis using "2.hyps"(1)[OF None rest] None by simp
  next
    case (Some n)
    have eq: "gsub match_uuid ''UUID'' pw (c # cs) =
              ''UUID'' @ gsub match_uuid ''UUID'' True (drop (n - 1) cs)"
      using Some match_uuid_last(2) [OF Some] by simp
    have "\<not> has_match match_number True (drop (n - 1) cs)"
      using has_match_drop [OF "2.prems", of "n - 1"] match_uuid_last(2) [OF Some] by simp
    then have "\<not> has_match match_number True (gsub match_uuid ''UUID'' True (drop (n - 1) cs))"
      using "2.hyps"(2)[OF Some] match_uuid_last(2) [OF Some] by simp
    then show ?thesis
      unfolding eq
      by (subst has_match_number_token) (simp_all add: is_digit_def is_word_def is_upper_def)
  qed
qed

lemma num_tail_lower: "num_tail (map lower_char s) = num_tail s"
  by (induction s) simp_all

lemma has_match_number_lower:
  "has_match match_number pw (toLowerCase s) = has_match match_number pw s"
  unfolding toLowerCase_def
  by (induction s arbitrary: pw) (simp_all add: num_tail_lower)

lemma num_tail_spaces:
  "\<forall>x\<in>set t. is_space x \<Longrightarrow> num_tail s = Some k \<Longrightarrow> num_tail (s @ t) = Some k"
proof (induction s arbitrary: k)
  case Nil
  then show ?case using space_not_word digit_word by (cases t) auto
next
  case (Cons c cs)
  then show ?case by (auto split: if_splits)
qed

lemma has_match_number_trailing:
  "\<forall>x\<in>set t. is_space x \<Longrightarrow> \<not> has_match match_number pw (s @ t) \<Longrightarrow>
   \<not> has_match match_number pw s"
proof (induction s arbitrary: pw)
  case Nil
  then show ?case by simp
next
  case (Cons c cs)
  from Cons.prems(2) have here: "match_number pw (c # cs @ t) = None"
    and rest: "\<not> has_match match_number (is_word c) (cs @ t)" by simp_all
  have "match_number pw (c # cs) = None"
  proof (cases "\<not> pw \<and> is_digit c")
    case True
    with here have "num_tail (cs @ t) = None" by simp
    then have "num_tail cs = None"
      using num_tail_spaces [OF Cons.prems(1), of cs] by (cases "num_tail cs") auto
    with True show ?thesis by simp
  next
    case False
    then show ?thesis by auto
  qed
  then show ?case using Cons.IH [OF Cons.prems(1) rest] by simp
qed

lemma has_match_number_leading:
  "\<not> has_match match_number False s \<Longrightarrow>
   \<not> has_match match_number False (dropWhile is_space s)"
proof (induction s)
  case Nil
  then show ?case by simp
next
  case (Cons c cs)
  show ?case
  proof (cases "is_space c")
    case True
    then have "\<not> is_word c" by (rule space_not_word)
    with Cons.prems have "\<not> has_match match_number False cs" by simp
    then show ?thesis using True Cons.IH by simp
  next
    case False
    then show ?thesis using Cons.prems by simp
  qed
qed

lemma has_match_number_trim:
  assumes "\<not> has_match match_number False s"
  shows "\<not> has_match match_number False (trim s)"
proof -
  let ?d = "dropWhile is_space s"
  have d: "?d = trim s @ rev (takeWhile is_space (rev ?d))"
    unfolding trim_def by (metis rev_append rev_rev_ident takeWhile_dropWhile_id)
  have sp: "\<forall>x\<in>set (rev (takeWhile is_space (rev ?d))). is_space x"
    by (auto dest: set_takeWhileD)
  have "\<not> has_match match_number False (trim s @ rev (takeWhile is_space (rev ?d)))"
    using has_match_number_leading [OF assms] d by simp
  then show ?thesis by (rule has_match_number_trailing [OF sp])
qed

lemma normalize_no_number: "\<not> has_match match_number False (normalizeMessage m)"
proof -
  have "\<not> has_match match_number False (gsub match_number ''NUMBER'' False
           (gsub match_timestamp ''TIMESTAMP'' False m))"
    by (rule gsub_number_no_match)
  then have "\<not> has_match match_number False (gsub match_uuid ''UUID'' False
         (gsub match_number ''NUMBER'' False
           (gsub match_timestamp ''TIMESTAMP'' False m)))"
    by (rule gsub_uuid_keeps_no_number)
  then have "\<not> has_match match_number False (toLowerCase (gsub match_uuid ''UUID'' False
         (gsub match_number ''NUMBER'' False
           (gsub match_timestamp ''TIMESTAMP'' False m))))"
    by (simp add: has_match_number_lower)
  then show ?thesis unfolding normalizeMessage_def by (rule has_match_number_trim)
qed

subsection \<open>Lower case and trimming\<close>

lemma toLowerCase_idem: "toLowerCase (toLowerCase s) = toLowerCase s"
  by (simp add: toLowerCase_def)

lemma dropWhile_space_lower:
  "dropWhile is_space (map lower_char s) = map lower_char (dropWhile is_space s)"
  by (induction s) simp_all

lemma toLowerCase_trim: "toLowerCase (trim s) = trim (toLowerCase s)"
  by (simp add: toLowerCase_def trim_def rev_map dropWhile_space_lower)

lemma dropWhile_trim: "dropWhile is_space (trim s) = trim s"
proof (cases "trim s")
  case Nil
  then show ?thesis by simp
next
  case (Cons x xs)
  let ?d = "dropWhile is_space s"
  have d: "?d = trim s @ rev (takeWhile is_space (rev ?d))"
    unfolding trim_def by (metis rev_append rev_rev_ident takeWhile_dropWhile_id)
  then have "?d = x # (xs @ rev (takeWhile is_space (rev ?d)))" using Cons by simp
  then have "\<not> is_space x" by (simp add: dropWhile_eq_Cons_conv)
  then show ?thesis using Cons by simp
qed

lemma trim_idem: "trim (trim s) = trim s"
proof -
  have "trim (trim s) = rev (dropWhile is_space (rev (trim s)))"
    unfolding trim_def [of "trim s"] by (simp only: dropWhile_trim)
  also have "\<dots> = trim s" by (simp add: trim_def)
  finally show ?thesis .
qed

subsection \<open>Idempotence\<close>

lemma no_uuid_no_match: "\<not> occurs uuid_shape s \<Longrightarrow> \<not> has_match match_uuid pw s"
  by (induction s arbitrary: pw) (auto simp: match_uuid_def)

lemma uuid_not_empty: "\<not> fits uuid_shape []"
  using fits_nth [of uuid_shape "[]" 0] by (auto simp: uuid_shape_last)

lemma uuid_match_no_occurs: "\<not> has_match match_uuid pw s \<Longrightarrow> \<not> occurs uuid_shape s"
  by (induction s arbitrary: pw) (auto simp: match_uuid_def uuid_not_empty)

lemma length_gsub_uuid:
  "length (gsub match_uuid ''UUID'' pw s) \<le> length s \<and>
   (has_match match_uuid pw s \<longrightarrow> length (gsub match_uuid ''UUID'' pw s) < length s)"
proof (induction match_uuid "''UUID''" pw s rule: gsub.induct)
  case (1 pw)
  then show ?case by simp
next
  case (2 pw c cs)
  show ?case
  proof (cases "match_uuid pw (c # cs)")
    case None
    then show ?thesis using "2.hyps"(1)[OF None] by auto
  next
    case (Some n)
    then have f: "fits uuid_shape (c # cs)" and n: "n = 36"
      by (auto simp: match_uuid_def split: if_splits)
    from fits_nth [OF f, of 35] have len: "35 \<le> length cs" by (simp add: uuid_shape_last)
    have eq: "gsub match_uuid ''UUID'' pw (c # cs) =
              ''UUID'' @ gsub match_uuid ''UUID'' True (drop 35 cs)"
      using Some match_uuid_last(2) [OF Some] n by simp
    have "length (gsub match_uuid ''UUID'' True (drop 35 cs)) \<le> length cs - 35"
      using "2.hyps"(2)[OF Some] match_uuid_last(2) [OF Some] n by simp
    then have "length (''UUID'' @ gsub match_uuid ''UUID'' True (drop 35 cs)) < length (c # cs)"
      using len by simp
    then show ?thesis unfolding eq by simp
  qed
qed

lemma length_trim: "length (trim s) \<le> length s"
proof -
  have "length (trim s) \<le> length (dropWhile is_space s)"
    unfolding trim_def using length_dropWhile_le [of is_space "rev (dropWhile is_space s)"]
    by simp
  then show ?thesis using length_dropWhile_le [of is_space s] by linarith
qed

text \<open>
  Claim C9, as amended: \<open>normalizeMessage (normalizeMessage m) = normalizeMessage m\<close>
  holds for exactly the messages \<open>m\<close> whose normalised form has no match of the UUID
  pattern; no time stamp and no bare integer is ever left in a normalised form.
\<close>

theorem normalize_idempotent_iff_no_uuid:
  "(normalizeMessage (normalizeMessage m) = normalizeMessage m) =
   (\<not> occurs uuid_shape (normalizeMessage m))"
proof -
  let ?n = "normalizeMessage m"
  have ts: "gsub match_timestamp ''TIMESTAMP'' False ?n = ?n"
    by (rule gsub_id [OF no_core_no_match [OF normalize_no_core]])
  have num: "gsub match_number ''NUMBER'' False ?n = ?n"
    by (rule gsub_id [OF normalize_no_number])
  have again: "normalizeMessage ?n = trim (toLowerCase (gsub match_uuid ''UUID'' False ?n))"
    unfolding normalizeMessage_def [of ?n] by (simp only: ts num)
  show ?thesis
  proof (cases "occurs uuid_shape ?n")
    case True
    then have "has_match match_uuid False ?n" using uuid_match_no_occurs by blast
    then have "length (gsub match_uuid ''UUID'' False ?n) < length ?n"
      using length_gsub_uuid by blast
    then have "length (trim (toLowerCase (gsub match_uuid ''UUID'' False ?n))) < length ?n"
      using length_trim [of "toLowerCase (gsub match_uuid ''UUID'' False ?n)"]
      by (simp add: toLowerCase_def)
    then have "normalizeMessage ?n \<noteq> ?n" unfolding again by auto
    with True show ?thesis by simp
  next
    case False
    have uuid: "gsub match_uuid ''UUID'' False ?n = ?n"
      by (rule gsub_id [OF no_uuid_no_match [OF False]])
    have low: "toLowerCase ?n = ?n"
      unfolding normalizeMessage_def by (simp only: toLowerCase_trim toLowerCase_idem)
    have "normalizeMessage ?n = trim ?n"
      unfolding again by (simp only: uuid low)
    also have "\<dots> = ?n" unfolding normalizeMessage_def by (rule trim_idem)
    finally show ?thesis using False by simp
  qed
qed

theorem normalize_idempotent_iff_no_uuid_witness:
  "\<not> occurs uuid_shape (normalizeMessage plain_message) \<and>
   normalizeMessage (normalizeMessage plain_message) = normalizeMessage plain_message"
proof -
  have h: "\<not> occurs uuid_shape (normalizeMessage plain_message)" by code_simp
  show ?thesis using h normalize_idempotent_iff_no_uuid [of plain_message] by simp
qed

text \<open>
  Claim C9 as stated fails: the first UUID of the message becomes the token \<open>UUID\<close>, and
  its last letter, in lower case, is the first of eight hexadecimal digits that begin a
  UUID in the result; the second normalisation replaces it.
\<close>

lemma two_uuids_normalized:
  "normalizeMessage two_uuids = ''uuidaaaaaaa-aaaa-aaaa-aaaa-aaaaaaaaaaaa''"
  "normalizeMessage (normalizeMessage two_uuids) = ''uuiuuid''"
  by code_simp+

theorem normalize_not_idempotent:
  "normalizeMessage (normalizeMessage two_uuids) \<noteq> normalizeMessage two_uuids"
  by (simp only: two_uuids_normalized(2)) (simp add: two_uuids_normalized(1))


end
